theory Spec2Isabelle
  imports Complex_Main "HOL-Library.Multiset"
begin

section \<open>Plant Keeper: the session-authenticated, ownership-scoped data layer of server.js\<close>

text \<open>
  The development embeds \<^verbatim>\<open>src/server.js\<close>: the JavaScript values that reach the
  handlers from a JSON body, the coercions the handlers apply to them, the five tables of
  the SQLite database as lists of rows, and every route handler as a function from the
  database to a reply and a new database. A handler that throws is a reply carrying
  \<open>Internal\<close> (Express answers 500), with the database as the throw left it.
\<close>

subsection \<open>JavaScript values and coercions\<close>

text \<open>
  A JavaScript number is \<open>NaN\<close>, an infinity or a finite double, kept as the rational
  it denotes; \<open>-0\<close> is \<open>0\<close>. A string is the list of its code units, for the strings
  whose code units are all below 256.
\<close>

datatype jsnum = NaN | PosInf | NegInf | Fin rat

text \<open>
  The Number value for a real \<open>x\<close>: the double nearest to \<open>x\<close>, the one with the even
  significand when two are as near, and an infinity from \<open>2^1024 - 2^970\<close> on. The
  exponent of the last place is at least -1074, so what lies under half the least
  subnormal is 0. An integer of magnitude at most \<open>2^53\<close> is a double, and so its own
  Number value.
\<close>

function bit_length :: "int \<Rightarrow> int" where
  "bit_length n = (if n \<le> 0 then 0 else 1 + bit_length (n div 2))"
  by pat_completeness auto
termination
  by (relation "measure nat") auto

declare bit_length.simps [simp del]

definition pow2 :: "int \<Rightarrow> rat" where
  "pow2 k = (if 0 \<le> k then 2 ^ nat k else 1 / 2 ^ nat (- k))"

text \<open>The integer part of the binary logarithm of a positive rational.\<close>

definition ilog2 :: "rat \<Rightarrow> int" where
  "ilog2 a =
     (let (p, q) = quotient_of a;
          k = bit_length p - bit_length q
      in if pow2 k \<le> a then k else k - 1)"

definition round_half_even :: "rat \<Rightarrow> int" where
  "round_half_even q =
     (let f = \<lfloor>q\<rfloor>; r = q - of_int f
      in if r < 1 / 2 then f else if 1 / 2 < r then f + 1 else if even f then f else f + 1)"

definition to_double :: "rat \<Rightarrow> jsnum" where
  "to_double x =
     (if of_int \<lfloor>x\<rfloor> = x \<and> \<bar>x\<bar> \<le> 9007199254740992 then Fin x
      else
        let a = \<bar>x\<bar>;
            e = max (ilog2 a) (- 1022);
            u = pow2 (e - 52);
            v = of_int (round_half_even (a / u)) * u
        in if pow2 1024 \<le> v then (if 0 < x then PosInf else NegInf)
           else Fin (if 0 < x then v else - v))"

text \<open>
  The values a parsed JSON body hands to a handler, with \<open>JUndefined\<close> for a key that
  is absent (or a body that is). A number of the body is the double the parser read.
\<close>

datatype json =
    JUndefined
  | JNull
  | JBool bool
  | JNum jsnum
  | JStr string
  | JArr "json list"
  | JObj "(string \<times> json) list"

text \<open>\<^verbatim>\<open>!v\<close> is \<open>\<not> truthy v\<close>.\<close>

fun truthy :: "json \<Rightarrow> bool" where
  "truthy JUndefined = False"
| "truthy JNull = False"
| "truthy (JBool b) = b"
| "truthy (JNum n) = (n \<noteq> NaN \<and> n \<noteq> Fin 0)"
| "truthy (JStr s) = (s \<noteq> [])"
| "truthy (JArr xs) = True"
| "truthy (JObj kv) = True"

text \<open>\<^verbatim>\<open>a || b\<close> and \<^verbatim>\<open>a ?? b\<close>.\<close>

text \<open>The values that are neither arrays nor objects.\<close>

fun primitive :: "json \<Rightarrow> bool" where
  "primitive (JArr xs) = False"
| "primitive (JObj kv) = False"
| "primitive v = True"

definition js_or :: "json \<Rightarrow> json \<Rightarrow> json" where
  "js_or a b = (if truthy a then a else b)"

definition nullish :: "json \<Rightarrow> json \<Rightarrow> json" where
  "nullish a b = (if a = JUndefined \<or> a = JNull then b else a)"

text \<open>
  \<^verbatim>\<open>Number(s)\<close> on a string (StringToNumber of ECMAScript): white space is trimmed,
  the empty string is 0, then a radix literal \<^verbatim>\<open>0x.. 0o.. 0b..\<close> or a signed decimal
  literal with optional fraction and exponent, or \<^verbatim>\<open>Infinity\<close>; anything else is NaN.
  The value of a literal is rounded to a double, as V8 does for every literal. The white
  space below 256 is tab, line feed, vertical tab, form feed, carriage return, space and
  the no-break space.
\<close>

definition is_digit :: "char \<Rightarrow> bool" where
  "is_digit c = (c \<in> set ''0123456789'')"

definition digit_val :: "char \<Rightarrow> int" where
  "digit_val c = of_char c - 48"

definition digits_val :: "string \<Rightarrow> int" where
  "digits_val s = foldl (\<lambda>a c. 10 * a + digit_val c) 0 s"

definition is_space :: "char \<Rightarrow> bool" where
  "is_space c = (of_char c \<in> {9, 10, 11, 12, 13, 32, 160 :: nat})"

definition trim :: "string \<Rightarrow> string" where
  "trim s = rev (dropWhile is_space (rev (dropWhile is_space s)))"

definition split_at :: "(char \<Rightarrow> bool) \<Rightarrow> string \<Rightarrow> string \<times> string option" where
  "split_at P s =
     (takeWhile (\<lambda>c. \<not> P c) s,
      case dropWhile (\<lambda>c. \<not> P c) s of [] \<Rightarrow> None | _ # r \<Rightarrow> Some r)"

definition unsigned_digits :: "string \<Rightarrow> int option" where
  "unsigned_digits s =
     (if s \<noteq> [] \<and> list_all is_digit s then Some (digits_val s) else None)"

definition signed_digits :: "string \<Rightarrow> int option" where
  "signed_digits s =
     (case s of
        [] \<Rightarrow> None
      | c # r \<Rightarrow>
          if c = CHR ''+'' then unsigned_digits r
          else if c = CHR ''-'' then map_option uminus (unsigned_digits r)
          else unsigned_digits s)"

definition pow10 :: "int \<Rightarrow> rat" where
  "pow10 k = (if 0 \<le> k then 10 ^ nat k else 1 / 10 ^ nat (- k))"

definition unsigned_decimal :: "string \<Rightarrow> jsnum" where
  "unsigned_decimal s =
     (if s = ''Infinity'' then PosInf
      else
        let (m, ex) = split_at (\<lambda>c. c = CHR ''e'' \<or> c = CHR ''E'') s;
            (ip, fp) = split_at (\<lambda>c. c = CHR ''.'') m;
            fr = (case fp of None \<Rightarrow> [] | Some f \<Rightarrow> f);
            e = (case ex of None \<Rightarrow> Some 0 | Some x \<Rightarrow> signed_digits x)
        in case e of
             None \<Rightarrow> NaN
           | Some k \<Rightarrow>
               if list_all is_digit ip \<and> list_all is_digit fr \<and> (ip \<noteq> [] \<or> fr \<noteq> [])
               then to_double (of_int (digits_val (ip @ fr)) * pow10 (k - int (length fr)))
               else NaN)"

fun negate :: "jsnum \<Rightarrow> jsnum" where
  "negate NaN = NaN"
| "negate PosInf = NegInf"
| "negate NegInf = PosInf"
| "negate (Fin r) = Fin (- r)"

definition decimal_literal :: "string \<Rightarrow> jsnum" where
  "decimal_literal s =
     (case s of
        [] \<Rightarrow> NaN
      | c # r \<Rightarrow>
          if c = CHR ''+'' then unsigned_decimal r
          else if c = CHR ''-'' then negate (unsigned_decimal r)
          else unsigned_decimal s)"

definition radix_of :: "char \<Rightarrow> int option" where
  "radix_of c =
     (if c = CHR ''x'' \<or> c = CHR ''X'' then Some 16
      else if c = CHR ''o'' \<or> c = CHR ''O'' then Some 8
      else if c = CHR ''b'' \<or> c = CHR ''B'' then Some 2
      else None)"

definition radix_digit :: "int \<Rightarrow> char \<Rightarrow> int option" where
  "radix_digit b c =
     (let v = (if is_digit c then Some (digit_val c)
               else if c \<in> set ''abcdef'' then Some (of_char c - 87)
               else if c \<in> set ''ABCDEF'' then Some (of_char c - 55)
               else None)
      in case v of None \<Rightarrow> None | Some n \<Rightarrow> if n < b then Some n else None)"

definition radix_literal :: "string \<Rightarrow> jsnum option" where
  "radix_literal s =
     (case s of
        c0 # c1 # r \<Rightarrow>
          if c0 = CHR ''0'' then
            (case radix_of c1 of
               None \<Rightarrow> None
             | Some b \<Rightarrow>
                 Some (if r \<noteq> [] \<and> list_all (\<lambda>c. radix_digit b c \<noteq> None) r
                       then to_double (of_int (foldl (\<lambda>a c. b * a + (case radix_digit b c of
                                                                  Some n \<Rightarrow> n | None \<Rightarrow> 0)) 0 r))
                       else NaN))
          else None
      | _ \<Rightarrow> None)"

definition StringToNumber :: "string \<Rightarrow> jsnum" where
  "StringToNumber s =
     (let t = trim s in
      if t = [] then Fin 0
      else case radix_literal t of Some n \<Rightarrow> n | None \<Rightarrow> decimal_literal t)"

text \<open>
  \<^verbatim>\<open>Number(v)\<close>. An object or an array is made a text first: an object is
  \<^verbatim>\<open>[object Object]\<close>, an array the texts of its elements with commas between them,
  \<^verbatim>\<open>null\<close> and \<^verbatim>\<open>undefined\<close> as the empty text. So the empty array is 0, an array of
  two or more elements is NaN, a comma being part of no numeric literal, and an array of
  one element is the number of the text of the element; the text of a number reads back
  as that number.
\<close>

fun Number :: "json \<Rightarrow> jsnum" where
  "Number JUndefined = NaN"
| "Number JNull = Fin 0"
| "Number (JBool b) = (if b then Fin 1 else Fin 0)"
| "Number (JNum n) = n"
| "Number (JStr s) = StringToNumber s"
| "Number (JObj kv) = NaN"
| "Number (JArr []) = Fin 0"
| "Number (JArr [JUndefined]) = Fin 0"
| "Number (JArr [JNull]) = Fin 0"
| "Number (JArr [JBool b]) = NaN"
| "Number (JArr [JNum n]) = n"
| "Number (JArr [JStr s]) = StringToNumber s"
| "Number (JArr [JObj kv]) = NaN"
| "Number (JArr [JArr xs]) = Number (JArr xs)"
| "Number (JArr (x # y # zs)) = NaN"

text \<open>
  The text of a value (ToString), given the text of a number (\<^verbatim>\<open>Number::toString\<close>).
\<close>

fun join_commas :: "string list \<Rightarrow> string" where
  "join_commas [] = []"
| "join_commas [s] = s"
| "join_commas (s # t # r) = s @ '','' @ join_commas (t # r)"

fun ToString :: "(jsnum \<Rightarrow> string) \<Rightarrow> json \<Rightarrow> string" where
  "ToString f JUndefined = ''undefined''"
| "ToString f JNull = ''null''"
| "ToString f (JBool b) = (if b then ''true'' else ''false'')"
| "ToString f (JNum n) = f n"
| "ToString f (JStr s) = s"
| "ToString f (JObj kv) = ''[object Object]''"
| "ToString f (JArr xs) =
     join_commas (map (\<lambda>x. if x = JUndefined \<or> x = JNull then [] else ToString f x) xs)"

subsection \<open>Dates\<close>

text \<open>
  A timestamp is its time value, the milliseconds since the epoch that
  \<^verbatim>\<open>new Date(at).getTime()\<close> reads back from the ISO text \<^verbatim>\<open>toISOString()\<close> wrote into
  the \<^verbatim>\<open>at\<close>, \<^verbatim>\<open>last_watered\<close> and \<^verbatim>\<open>last_repotted\<close> columns: the two
  conversions are inverse to each other on valid dates, and every comparison the handlers
  make goes through \<^verbatim>\<open>new Date\<close>.

  What a request reads from its surroundings is the record \<open>env\<close>: the clock, the time
  zone of the server (local time value to UTC), \<^verbatim>\<open>Date.parse\<close> on strings that are not
  of the date-only form (implementation-defined in ECMAScript; \<open>None\<close> is the invalid
  date), the text of a number in JavaScript (\<^verbatim>\<open>Number::toString\<close>), the text SQLite
  makes of a number for a column of text, bcrypt, and the random session token.
\<close>

record env =
  now :: int
  utc_of_local :: "int \<Rightarrow> int"
  date_parse :: "string \<Rightarrow> int option"
  number_text :: "jsnum \<Rightarrow> string"
  real_text :: "jsnum \<Rightarrow> string"
  bcrypt_hash :: "string \<Rightarrow> string"
  bcrypt_compare :: "string \<Rightarrow> string \<Rightarrow> bool"
  randomBytes :: string

datatype js_error = RangeError | TypeError | SqliteError

definition msPerDay :: int where
  "msPerDay = 86400000"

text \<open>The day number of a civil date (MakeDay); a day past the end of the month runs on.\<close>

definition days_from_civil :: "int \<Rightarrow> int \<Rightarrow> int \<Rightarrow> int" where
  "days_from_civil y m d =
     (let y' = (if m \<le> 2 then y - 1 else y);
          era = y' div 400;
          yoe = y' - era * 400;
          doy = (153 * (if 2 < m then m - 3 else m + 9) + 2) div 5 + d - 1;
          doe = yoe * 365 + yoe div 4 - yoe div 100 + doy
      in era * 146097 + doe - 719468)"

text \<open>\<^verbatim>\<open>/^\d{4}-\d{2}-\d{2}$/.test(dateStr)\<close> on a string, with the three numbers read.\<close>

definition ymd_of :: "string \<Rightarrow> (int \<times> int \<times> int) option" where
  "ymd_of s =
     (if length s = 10 \<and> list_all is_digit (take 4 s) \<and> s ! 4 = CHR ''-''
         \<and> list_all is_digit (take 2 (drop 5 s)) \<and> s ! 7 = CHR ''-''
         \<and> list_all is_digit (drop 8 s)
      then Some (digits_val (take 4 s), digits_val (take 2 (drop 5 s)),
                 digits_val (drop 8 s))
      else None)"

text \<open>
  The test converts its argument to a string. The string of a number, of a boolean or
  of an object never has the date-only form, and neither has the string of an array of
  no element or of several, which is empty or has a comma; the string of an array of one
  element is the string of the element, empty for \<^verbatim>\<open>null\<close> and \<^verbatim>\<open>undefined\<close>.
\<close>

fun ymd_match :: "json \<Rightarrow> (int \<times> int \<times> int) option" where
  "ymd_match (JStr s) = ymd_of s"
| "ymd_match (JArr [x]) = ymd_match x"
| "ymd_match v = None"

text \<open>
  \<^verbatim>\<open>new Date(dateStr + 'T00:00:00')\<close>: a date-time without offset is local time. V8
  takes a month from 1 to 12 and a day from 1 to 31 and gives the invalid date (\<open>None\<close>)
  otherwise.
\<close>

definition local_midnight :: "env \<Rightarrow> int \<Rightarrow> int \<Rightarrow> int \<Rightarrow> int option" where
  "local_midnight e y m d =
     (if 1 \<le> m \<and> m \<le> 12 \<and> 1 \<le> d \<and> d \<le> 31
      then Some (utc_of_local e (msPerDay * days_from_civil y m d))
      else None)"

definition TimeClip :: "jsnum \<Rightarrow> int option" where
  "TimeClip n =
     (case n of
        Fin r \<Rightarrow> if \<bar>r\<bar> \<le> 8640000000000000
                 then Some (if 0 \<le> r then \<lfloor>r\<rfloor> else - \<lfloor>- r\<rfloor>) else None
      | _ \<Rightarrow> None)"

text \<open>\<^verbatim>\<open>new Date(v)\<close> on one argument; \<open>None\<close> is the invalid date.\<close>

definition new_Date :: "env \<Rightarrow> json \<Rightarrow> int option" where
  "new_Date e v =
     (case v of
        JStr s \<Rightarrow> date_parse e s
      | JArr xs \<Rightarrow> date_parse e (ToString (number_text e) v)
      | JObj kv \<Rightarrow> date_parse e (ToString (number_text e) v)
      | _ \<Rightarrow> TimeClip (Number v))"

text \<open>
  \<^verbatim>\<open>normalizeDate\<close>. \<^verbatim>\<open>toISOString()\<close> on the invalid date throws a RangeError; on
  line 121 the invalid date is tested for first.
\<close>

definition normalizeDate :: "env \<Rightarrow> json \<Rightarrow> js_error + int" where
  "normalizeDate e dateStr =
     (if \<not> truthy dateStr then Inr (now e)
      else case ymd_match dateStr of
             Some (y, m, d) \<Rightarrow>
               (case local_midnight e y m d of None \<Rightarrow> Inl RangeError | Some t \<Rightarrow> Inr t)
           | None \<Rightarrow>
               (case new_Date e dateStr of None \<Rightarrow> Inr (now e) | Some t \<Rightarrow> Inr t))"

subsection \<open>The database\<close>

text \<open>
  A column value as SQLite holds it. better-sqlite3 binds \<^verbatim>\<open>undefined\<close> and
  \<^verbatim>\<open>null\<close> as NULL, a number as a double (SQLite stores the NaN double as NULL and
  keeps the infinities, \<open>SqlInf True\<close> the positive one), a string as text, and throws a
  TypeError on a boolean, an array or an object. A row read back gives NULL as
  \<^verbatim>\<open>null\<close>. The conversions of column affinity are not modelled for the columns of a
  plant: a row holds the value that was bound.
\<close>

datatype sqlval = SqlNull | SqlNum rat | SqlInf bool | SqlText string

fun bind :: "json \<Rightarrow> sqlval option" where
  "bind JUndefined = Some SqlNull"
| "bind JNull = Some SqlNull"
| "bind (JBool b) = None"
| "bind (JNum n) =
     Some (case n of NaN \<Rightarrow> SqlNull | PosInf \<Rightarrow> SqlInf True | NegInf \<Rightarrow> SqlInf False
           | Fin r \<Rightarrow> SqlNum r)"
| "bind (JStr s) = Some (SqlText s)"
| "bind (JArr xs) = None"
| "bind (JObj kv) = None"

fun column :: "sqlval \<Rightarrow> json" where
  "column SqlNull = JNull"
| "column (SqlNum r) = JNum (Fin r)"
| "column (SqlInf b) = JNum (if b then PosInf else NegInf)"
| "column (SqlText s) = JStr s"

text \<open>
  The arguments of \<^verbatim>\<open>run\<close> and \<^verbatim>\<open>get\<close> on a statement whose parameters are all \<^verbatim>\<open>?\<close>.
  better-sqlite3 takes an argument that is an array as the values of the next
  parameters, one for each element, and an object as the values of the named
  parameters, of which there are none here; every other argument is the value of the
  next parameter. It throws when a value cannot be bound, when two arguments are objects,
  and when the values are not as many as the parameters. \<open>run_params n args\<close> is the list of
  the \<open>n\<close> values bound, \<open>None\<close> when the call throws.
\<close>

fun bind_arg :: "json \<Rightarrow> sqlval list option" where
  "bind_arg (JArr xs) = those (map bind xs)"
| "bind_arg (JObj kv) = Some []"
| "bind_arg v = map_option (\<lambda>x. [x]) (bind v)"

fun is_object :: "json \<Rightarrow> bool" where
  "is_object (JObj kv) = True"
| "is_object v = False"

definition run_params :: "nat \<Rightarrow> json list \<Rightarrow> sqlval list option" where
  "run_params n args =
     (if 1 < length (filter is_object args) then None
      else case those (map bind_arg args) of
             None \<Rightarrow> None
           | Some vss \<Rightarrow> if length (concat vss) = n then Some (concat vss) else None)"

text \<open>
  The column \<^verbatim>\<open>email\<close> has the affinity of text: a number stored there, or compared
  with it, is made a text first. \<open>None\<close> is NULL.
\<close>

definition text_affinity :: "env \<Rightarrow> sqlval \<Rightarrow> string option" where
  "text_affinity e v =
     (case v of
        SqlNull \<Rightarrow> None
      | SqlText s \<Rightarrow> Some s
      | SqlNum r \<Rightarrow> Some (real_text e (Fin r))
      | SqlInf b \<Rightarrow> Some (real_text e (if b then PosInf else NegInf)))"

text \<open>
  The tables. The columns \<^verbatim>\<open>id\<close>, \<^verbatim>\<open>user_id\<close> and \<^verbatim>\<open>created_at\<close> occur in several
  tables and carry the table's initial here. \<^verbatim>\<open>waterings\<close> and \<^verbatim>\<open>repottings\<close> have
  the same columns; their rows stand in the order of their row ids, which no handler
  reads. The counters are the AUTOINCREMENT sequences: an id is never given twice.
\<close>

record user =
  u_id :: int
  email :: string
  password_hash :: string

record session =
  s_id :: string
  s_user_id :: int
  s_created_at :: int

record plant =
  p_id :: int
  p_name :: sqlval
  species :: sqlval
  location :: sqlval
  water_interval_days :: sqlval
  repot_interval_days :: sqlval
  p_notes :: sqlval
  last_watered :: "int option"
  last_repotted :: "int option"
  p_user_id :: "int option"

record event =
  plant_id :: int
  ev_at :: int
  e_user_id :: int

record db =
  users :: "user list"
  users_seq :: int
  sessions :: "session list"
  plants :: "plant list"
  plants_seq :: int
  waterings :: "event list"
  repottings :: "event list"

definition empty_db :: db where
  "empty_db = \<lparr>users = [], users_seq = 0, sessions = [], plants = [], plants_seq = 0,
                waterings = [], repottings = []\<rparr>"

text \<open>
  The replies. An error is the status and message of the response: \<open>ValidationError\<close>
  is 400, \<open>Unauthorized\<close> is 401 \<^verbatim>\<open>unauthorized\<close>, \<open>InvalidCredentials\<close> is 401
  \<^verbatim>\<open>invalid credentials\<close>, \<open>NotFound\<close> is 404, \<open>Conflict\<close> is 409 and \<open>Internal\<close>
  is 500, also the 500 Express sends when a handler throws. \<open>Internal\<close> stands as well
  for the end of a request whose \<^verbatim>\<open>async\<close> handler rejects: the handler sends no
  reply of its own.
\<close>

datatype error = ValidationError | Unauthorized | InvalidCredentials | NotFound | Conflict | Internal

datatype kind = watered | repotted

datatype payload =
    Done
  | SetCookie string
  | Me int string
  | Plants "plant list"
  | NewId int
  | At int
  | History "(kind \<times> int) list"

type_synonym reply = "error + payload"

subsection \<open>Auth helpers\<close>

text \<open>
  \<^verbatim>\<open>createSession\<close>: the token is the primary key of \<^verbatim>\<open>sessions\<close>, so the insert
  throws when the token is there already. \<^verbatim>\<open>created_at\<close> is the time of the insert.
\<close>

definition createSession :: "env \<Rightarrow> int \<Rightarrow> db \<Rightarrow> js_error + (string \<times> db)" where
  "createSession e userId d =
     (let sid = randomBytes e in
      if sid \<in> s_id ` set (sessions d) then Inl SqliteError
      else Inr (sid, d\<lparr>sessions := sessions d @
                  [\<lparr>s_id = sid, s_user_id = userId, s_created_at = now e\<rparr>]\<rparr>))"

text \<open>
  \<^verbatim>\<open>getSession\<close>. The cookie is \<^verbatim>\<open>req.signedCookies[SESSION_COOKIE]\<close>: \<open>None\<close> when
  the request has no such cookie or its signature is wrong. The result is the first row
  of the join of \<^verbatim>\<open>sessions\<close> with \<^verbatim>\<open>users\<close>.
\<close>

definition getSession :: "db \<Rightarrow> string option \<Rightarrow> (string \<times> int \<times> string) option" where
  "getSession d cookie =
     (case cookie of
        None \<Rightarrow> None
      | Some sid \<Rightarrow>
          if sid = [] then None
          else (case [(s_id s, u_id u, email u).
                        s \<leftarrow> sessions d, u \<leftarrow> users d, u_id u = s_user_id s, s_id s = sid] of
                  [] \<Rightarrow> None
                | row # _ \<Rightarrow> Some row))"

definition destroySession :: "db \<Rightarrow> string option \<Rightarrow> db" where
  "destroySession d cookie =
     (case cookie of
        None \<Rightarrow> d
      | Some sid \<Rightarrow>
          if sid = [] then d else d\<lparr>sessions := filter (\<lambda>s. s_id s \<noteq> sid) (sessions d)\<rparr>)"

text \<open>\<^verbatim>\<open>requireAuth\<close>: the handler \<open>next\<close> runs with \<^verbatim>\<open>req.user.id\<close>.\<close>

definition requireAuth :: "db \<Rightarrow> string option \<Rightarrow> (int \<Rightarrow> reply \<times> db) \<Rightarrow> reply \<times> db" where
  "requireAuth d cookie next =
     (case getSession d cookie of
        None \<Rightarrow> (Inl Unauthorized, d)
      | Some (sid, uid, em) \<Rightarrow> next uid)"

subsection \<open>Auth routes\<close>

text \<open>
  Each credential route awaits bcrypt at most once and touches the database in
  synchronous stretches that no other request can come between with a write of its own,
  so a request is one step. \<^verbatim>\<open>bcrypt.hash\<close> and \<^verbatim>\<open>bcrypt.compare\<close> reject when the
  secret is not a string. A rejection or a throw that no \<^verbatim>\<open>catch\<close> of the handler
  takes is answered by \<open>Internal\<close> in the model; the database is as the handler left it.

  \<^verbatim>\<open>POST /api/register\<close>: the hash is awaited outside the \<^verbatim>\<open>try\<close>. Inside it the
  insert into \<^verbatim>\<open>users\<close> throws on arguments that cannot be bound, on NULL for
  \<^verbatim>\<open>email TEXT NOT NULL\<close> and on a known email; the insert of the session throws on a
  known token. Only the message of a known email or token carries \<^verbatim>\<open>UNIQUE\<close>.
\<close>

definition post_register :: "env \<Rightarrow> json \<Rightarrow> json \<Rightarrow> db \<Rightarrow> reply \<times> db" where
  "post_register e em pw d =
     (if \<not> truthy em \<or> \<not> truthy pw then (Inl ValidationError, d)
      else
        case pw of
          JStr pw' \<Rightarrow>
            (case run_params 2 [em, JStr (bcrypt_hash e pw')] of
               Some [v, h] \<Rightarrow>
                 (case (text_affinity e v, text_affinity e h) of
                    (Some em', Some hash) \<Rightarrow>
                      if em' \<in> email ` set (users d) then (Inl Conflict, d)
                      else
                        let uid = users_seq d + 1;
                            d1 = d\<lparr>users := users d @
                                     [\<lparr>u_id = uid, email = em', password_hash = hash\<rparr>],
                                   users_seq := uid\<rparr>
                        in (case createSession e uid d1 of
                              Inl _ \<Rightarrow> (Inl Conflict, d1)
                            | Inr (sid, d2) \<Rightarrow> (Inr (SetCookie sid), d2))
                  | _ \<Rightarrow> (Inl Internal, d))
             | _ \<Rightarrow> (Inl Internal, d))
        | _ \<Rightarrow> (Inl Internal, d))"

text \<open>
  \<^verbatim>\<open>POST /api/login\<close>. Beside the reply and the database the model returns the calls of
  \<^verbatim>\<open>bcrypt.compare\<close> that hashed a secret, in order: the slow step of the route. The
  handler has no \<^verbatim>\<open>catch\<close>: a handle that cannot be bound, a secret that is neither
  falsy nor a string, and a token that is there already end the request without the
  handler's reply.
\<close>

datatype effect = Bcrypt_compare string string

definition post_login :: "env \<Rightarrow> json \<Rightarrow> json \<Rightarrow> db \<Rightarrow> reply \<times> db \<times> effect list" where
  "post_login e em pw d =
     (case run_params 1 [js_or em (JStr [])] of
        Some [v] \<Rightarrow>
          (case find (\<lambda>u. text_affinity e v = Some (email u)) (users d) of
             None \<Rightarrow> (Inl InvalidCredentials, d, [])
           | Some u \<Rightarrow>
               (case js_or pw (JStr []) of
                  JStr pw' \<Rightarrow>
                    let tr = [Bcrypt_compare pw' (password_hash u)] in
                    if \<not> bcrypt_compare e pw' (password_hash u)
                    then (Inl InvalidCredentials, d, tr)
                    else (case createSession e (u_id u) d of
                            Inl _ \<Rightarrow> (Inl Internal, d, tr)
                          | Inr (sid, d1) \<Rightarrow> (Inr (SetCookie sid), d1, tr))
                | _ \<Rightarrow> (Inl Internal, d, [])))
      | _ \<Rightarrow> (Inl Internal, d, []))"

definition post_logout :: "string option \<Rightarrow> db \<Rightarrow> reply \<times> db" where
  "post_logout cookie d = (Inr Done, destroySession d cookie)"

definition get_me :: "string option \<Rightarrow> db \<Rightarrow> reply \<times> db" where
  "get_me cookie d =
     (case getSession d cookie of
        None \<Rightarrow> (Inl Unauthorized, d)
      | Some (sid, uid, em) \<Rightarrow> (Inr (Me uid em), d))"

subsection \<open>Plant routes\<close>

text \<open>
  The handlers below are the bodies that run behind \<^verbatim>\<open>requireAuth\<close>: \<open>uid\<close> is
  \<^verbatim>\<open>req.user.id\<close> and \<open>n\<close> is \<^verbatim>\<open>Number(req.params.id)\<close>.

  \<open>visible\<close> is the condition \<^verbatim>\<open>user_id IS ? OR user_id = ?\<close> bound to \<^verbatim>\<open>null\<close> and
  the user; \<open>id_is\<close> is \<^verbatim>\<open>id = ?\<close> bound to the number.
\<close>

definition visible :: "int \<Rightarrow> plant \<Rightarrow> bool" where
  "visible uid p = (p_user_id p = None \<or> p_user_id p = Some uid)"

definition id_is :: "jsnum \<Rightarrow> int \<Rightarrow> bool" where
  "id_is n i = (n = Fin (of_int i))"

definition select_plant :: "db \<Rightarrow> jsnum \<Rightarrow> int \<Rightarrow> plant option" where
  "select_plant d n uid = find (\<lambda>p. id_is n (p_id p) \<and> visible uid p) (plants d)"

definition get_plants :: "int \<Rightarrow> db \<Rightarrow> reply \<times> db" where
  "get_plants uid d = (Inr (Plants (sort_key (\<lambda>p. - p_id p) (filter (visible uid) (plants d)))), d)"

text \<open>The fields a handler takes out of \<^verbatim>\<open>req.body || {}\<close>.\<close>

record attrs =
  a_name :: json
  a_species :: json
  a_location :: json
  a_water_interval_days :: json
  a_repot_interval_days :: json
  a_notes :: json

text \<open>
  \<^verbatim>\<open>POST /api/plants\<close>. The seven values go to the columns in the order of the
  statement; the insert throws on arguments that cannot be bound and on NULL for
  \<^verbatim>\<open>name TEXT NOT NULL\<close>. The last argument is one value, so the value of \<^verbatim>\<open>user_id\<close>
  is \<^verbatim>\<open>req.user.id\<close> whenever the values are seven.
\<close>

definition post_plants :: "int \<Rightarrow> attrs \<Rightarrow> db \<Rightarrow> reply \<times> db" where
  "post_plants uid b d =
     (if \<not> truthy (a_name b) then (Inl ValidationError, d)
      else
        case run_params 7
               [a_name b, a_species b, a_location b,
                JNum (Number (js_or (a_water_interval_days b) (JNum (Fin 7)))),
                JNum (Number (js_or (a_repot_interval_days b) (JNum (Fin 365)))),
                a_notes b, JNum (Fin (of_int uid))] of
          None \<Rightarrow> (Inl Internal, d)
        | Some vs \<Rightarrow>
            if vs ! 0 = SqlNull then (Inl Internal, d)
            else
              let i = plants_seq d + 1 in
              (Inr (NewId i),
               d\<lparr>plants := plants d @
                    [\<lparr>p_id = i, p_name = vs ! 0, species = vs ! 1, location = vs ! 2,
                      water_interval_days = vs ! 3, repot_interval_days = vs ! 4,
                      p_notes = vs ! 5, last_watered = None, last_repotted = None,
                      p_user_id = Some uid\<rparr>],
                 plants_seq := i\<rparr>))"

text \<open>
  \<^verbatim>\<open>PUT /api/plants/:id\<close>. The last argument is one value, so the value of the
  parameter of \<^verbatim>\<open>WHERE id=?\<close> is \<^verbatim>\<open>id\<close> whenever the values are seven.
\<close>

definition put_plant :: "int \<Rightarrow> jsnum \<Rightarrow> attrs \<Rightarrow> db \<Rightarrow> reply \<times> db" where
  "put_plant uid n b d =
     (case select_plant d n uid of
        None \<Rightarrow> (Inl NotFound, d)
      | Some p \<Rightarrow>
          (case run_params 7
                  [nullish (a_name b) (column (p_name p)),
                   nullish (a_species b) (column (species p)),
                   nullish (a_location b) (column (location p)),
                   JNum (Number (nullish (a_water_interval_days b)
                                         (column (water_interval_days p)))),
                   JNum (Number (nullish (a_repot_interval_days b)
                                         (column (repot_interval_days p)))),
                   nullish (a_notes b) (column (p_notes p)),
                   JNum n] of
             None \<Rightarrow> (Inl Internal, d)
           | Some vs \<Rightarrow>
               if vs ! 0 = SqlNull then (Inl Internal, d)
               else
                 (Inr Done,
                  d\<lparr>plants := map (\<lambda>q. if id_is n (p_id q)
                                        then q\<lparr>p_name := vs ! 0, species := vs ! 1,
                                               location := vs ! 2,
                                               water_interval_days := vs ! 3,
                                               repot_interval_days := vs ! 4,
                                               p_notes := vs ! 5\<rparr>
                                        else q) (plants d)\<rparr>)))"

text \<open>\<^verbatim>\<open>DELETE /api/plants/:id\<close>: three statements, one after the other.\<close>

definition delete_waterings :: "jsnum \<Rightarrow> db \<Rightarrow> db" where
  "delete_waterings n d = d\<lparr>waterings := filter (\<lambda>e. \<not> id_is n (plant_id e)) (waterings d)\<rparr>"

definition delete_repottings :: "jsnum \<Rightarrow> db \<Rightarrow> db" where
  "delete_repottings n d = d\<lparr>repottings := filter (\<lambda>e. \<not> id_is n (plant_id e)) (repottings d)\<rparr>"

definition delete_plants :: "jsnum \<Rightarrow> db \<Rightarrow> db" where
  "delete_plants n d = d\<lparr>plants := filter (\<lambda>p. \<not> id_is n (p_id p)) (plants d)\<rparr>"

definition delete_plant :: "int \<Rightarrow> jsnum \<Rightarrow> db \<Rightarrow> reply \<times> db" where
  "delete_plant uid n d =
     (case select_plant d n uid of
        None \<Rightarrow> (Inl NotFound, d)
      | Some p \<Rightarrow> (Inr Done, delete_plants n (delete_repottings n (delete_waterings n d))))"

text \<open>
  \<^verbatim>\<open>POST /api/water/:id\<close> and \<^verbatim>\<open>POST /api/repot/:id\<close>. The number bound to
  \<^verbatim>\<open>plant_id\<close> is the id of the row that was found. \<^verbatim>\<open>normalizeDate\<close> runs before
  the insert, so its throw leaves the database as it was.
\<close>

definition newer :: "int \<Rightarrow> int option \<Rightarrow> bool" where
  "newer t cached = (case cached of None \<Rightarrow> True | Some l \<Rightarrow> l < t)"

definition post_water :: "env \<Rightarrow> int \<Rightarrow> jsnum \<Rightarrow> json \<Rightarrow> db \<Rightarrow> reply \<times> db" where
  "post_water e uid n date d =
     (case select_plant d n uid of
        None \<Rightarrow> (Inl NotFound, d)
      | Some p \<Rightarrow>
          (case normalizeDate e date of
             Inl _ \<Rightarrow> (Inl Internal, d)
           | Inr t \<Rightarrow>
               let d1 = d\<lparr>waterings := waterings d @
                            [\<lparr>plant_id = p_id p, ev_at = t, e_user_id = uid\<rparr>]\<rparr>
               in (Inr (At t),
                   if newer t (last_watered p)
                   then d1\<lparr>plants := map (\<lambda>q. if id_is n (p_id q)
                                               then q\<lparr>last_watered := Some t\<rparr> else q) (plants d1)\<rparr>
                   else d1)))"

definition post_repot :: "env \<Rightarrow> int \<Rightarrow> jsnum \<Rightarrow> json \<Rightarrow> db \<Rightarrow> reply \<times> db" where
  "post_repot e uid n date d =
     (case select_plant d n uid of
        None \<Rightarrow> (Inl NotFound, d)
      | Some p \<Rightarrow>
          (case normalizeDate e date of
             Inl _ \<Rightarrow> (Inl Internal, d)
           | Inr t \<Rightarrow>
               let d1 = d\<lparr>repottings := repottings d @
                            [\<lparr>plant_id = p_id p, ev_at = t, e_user_id = uid\<rparr>]\<rparr>
               in (Inr (At t),
                   if newer t (last_repotted p)
                   then d1\<lparr>plants := map (\<lambda>q. if id_is n (p_id q)
                                               then q\<lparr>last_repotted := Some t\<rparr> else q) (plants d1)\<rparr>
                   else d1)))"

text \<open>
  \<^verbatim>\<open>GET /api/history/:id\<close>. Each query gives the rows of one table as pairs of the
  constant \<^verbatim>\<open>type\<close> and \<^verbatim>\<open>at\<close>, latest first; the two lists are joined, waterings
  first, and sorted by \<^verbatim>\<open>Array.prototype.sort\<close>, which is stable, on the difference of
  the time values: descending in time. \<^verbatim>\<open>ORDER BY at DESC\<close> compares the ISO texts,
  whose order is that of the time values for the years 0000 to 9999; the model orders the
  rows of a query by time value throughout, and the reply does not depend on the order
  within one query (\<open>history_independent_of_row_order\<close> below).
\<close>

definition by_time_desc :: "(kind \<times> int) list \<Rightarrow> (kind \<times> int) list" where
  "by_time_desc xs = sort_key (\<lambda>x. - snd x) xs"

definition select_events :: "kind \<Rightarrow> jsnum \<Rightarrow> event list \<Rightarrow> (kind \<times> int) list" where
  "select_events k n evs =
     by_time_desc (map (\<lambda>e. (k, ev_at e)) (filter (\<lambda>e. id_is n (plant_id e)) evs))"

definition get_history :: "int \<Rightarrow> jsnum \<Rightarrow> db \<Rightarrow> reply \<times> db" where
  "get_history uid n d =
     (case select_plant d n uid of
        None \<Rightarrow> (Inl NotFound, d)
      | Some p \<Rightarrow>
          (Inr (History (by_time_desc (select_events watered n (waterings d) @
                                      select_events repotted n (repottings d)))), d))"

subsection \<open>The server as a state machine\<close>

datatype route =
    Register json json
  | Login json json
  | Logout
  | GetMe
  | GetPlants
  | PostPlants attrs
  | PutPlant string attrs
  | DeletePlant string
  | PostWater string json
  | PostRepot string json
  | GetHistory string

text \<open>One request: its surroundings, its session cookie and its route.\<close>

fun handle :: "env \<Rightarrow> string option \<Rightarrow> route \<Rightarrow> db \<Rightarrow> reply \<times> db" where
  "handle e c (Register em pw) d = post_register e em pw d"
| "handle e c (Login em pw) d = (case post_login e em pw d of (r, d', _) \<Rightarrow> (r, d'))"
| "handle e c Logout d = post_logout c d"
| "handle e c GetMe d = get_me c d"
| "handle e c GetPlants d = requireAuth d c (\<lambda>uid. get_plants uid d)"
| "handle e c (PostPlants b) d = requireAuth d c (\<lambda>uid. post_plants uid b d)"
| "handle e c (PutPlant i b) d = requireAuth d c (\<lambda>uid. put_plant uid (Number (JStr i)) b d)"
| "handle e c (DeletePlant i) d = requireAuth d c (\<lambda>uid. delete_plant uid (Number (JStr i)) d)"
| "handle e c (PostWater i date) d =
     requireAuth d c (\<lambda>uid. post_water e uid (Number (JStr i)) date d)"
| "handle e c (PostRepot i date) d =
     requireAuth d c (\<lambda>uid. post_repot e uid (Number (JStr i)) date d)"
| "handle e c (GetHistory i) d = requireAuth d c (\<lambda>uid. get_history uid (Number (JStr i)) d)"

text \<open>A run of the server: the requests in the order they are served.\<close>

fun run :: "(env \<times> string option \<times> route) list \<Rightarrow> db \<Rightarrow> db" where
  "run [] d = d"
| "run ((e, c, r) # rs) d = run rs (snd (handle e c r d))"

subsection \<open>Invariants of the database\<close>

text \<open>
  The latest timestamp among the events of a plant in one table; \<open>None\<close> when the plant
  has no event there.
\<close>

definition max_at :: "event list \<Rightarrow> int \<Rightarrow> int option" where
  "max_at evs i =
     (let ts = map ev_at (filter (\<lambda>e. plant_id e = i) evs)
      in if ts = [] then None else Some (Max (set ts)))"

text \<open>The cached columns of every plant are the maxima over its events.\<close>

definition cache_consistent :: "db \<Rightarrow> bool" where
  "cache_consistent d =
     (\<forall>p \<in> set (plants d).
        last_watered p = max_at (waterings d) (p_id p) \<and>
        last_repotted p = max_at (repottings d) (p_id p))"

text \<open>
  What the primary key and AUTOINCREMENT of \<^verbatim>\<open>plants\<close> give: the ids are distinct, and
  every id in use, by a plant or by an event, was issued by the sequence.
\<close>

definition ids_issued :: "db \<Rightarrow> bool" where
  "ids_issued d =
     (distinct (map p_id (plants d)) \<and>
      (\<forall>p \<in> set (plants d). p_id p \<le> plants_seq d) \<and>
      (\<forall>e \<in> set (waterings d) \<union> set (repottings d). plant_id e \<le> plants_seq d))"

definition db_ok :: "db \<Rightarrow> bool" where
  "db_ok d = (ids_issued d \<and> cache_consistent d)"

text \<open>The rows of one table that belong to a plant, as the history shows them.\<close>

definition events_of :: "kind \<Rightarrow> jsnum \<Rightarrow> event list \<Rightarrow> (kind \<times> int) list" where
  "events_of k n evs = map (\<lambda>e. (k, ev_at e)) (filter (\<lambda>e. id_is n (plant_id e)) evs)"

text \<open>
  The history as the specification words it, over the events of a plant in the order
  they were appended: latest first, and among equal timestamps the order of insertion.
  \<open>history_latest_insert_first\<close> is the other reading of the tie-break, the later
  insertion first.
\<close>

definition history_by_insertion :: "(kind \<times> int) list \<Rightarrow> (kind \<times> int) list" where
  "history_by_insertion appended = sort_key (\<lambda>x. - snd x) appended"

definition history_latest_insert_first :: "(kind \<times> int) list \<Rightarrow> (kind \<times> int) list" where
  "history_latest_insert_first appended = sort_key (\<lambda>x. - snd x) (rev appended)"

text \<open>
  \<^verbatim>\<open>sessionTTLHours\<close> and the \<^verbatim>\<open>maxAge\<close> of the cookie in milliseconds, the one place
  the server uses it.
\<close>

definition sessionTTLHours :: int where
  "sessionTTLHours = 24 * 30"

definition maxAge :: int where
  "maxAge = sessionTTLHours * 3600 * 1000"

text \<open>The routes that create or destroy a session.\<close>

fun session_route :: "route \<Rightarrow> bool" where
  "session_route (Register em pw) = True"
| "session_route (Login em pw) = True"
| "session_route Logout = True"
| "session_route r = False"

subsection \<open>Concrete requests\<close>

text \<open>
  A server in UTC at clock \<open>t\<close>, drawing the token \<open>tok\<close>; its \<^verbatim>\<open>Date.parse\<close> knows
  no string, and its bcrypt is a stand-in that prefixes the password. The texts of
  numbers are stand-ins too; no request below reads them.
\<close>

definition utc_env :: "int \<Rightarrow> string \<Rightarrow> env" where
  "utc_env t tok =
     \<lparr>now = t, utc_of_local = (\<lambda>x. x), date_parse = (\<lambda>s. None),
      number_text = (\<lambda>n. ''0''), real_text = (\<lambda>n. ''0.0''),
      bcrypt_hash = (\<lambda>pw. ''$2b$11$'' @ pw),
      bcrypt_compare = (\<lambda>pw h. h = ''$2b$11$'' @ pw),
      randomBytes = tok\<rparr>"

definition no_attrs :: attrs where
  "no_attrs = \<lparr>a_name = JUndefined, a_species = JUndefined, a_location = JUndefined,
               a_water_interval_days = JUndefined, a_repot_interval_days = JUndefined,
               a_notes = JUndefined\<rparr>"

definition fern :: attrs where
  "fern = no_attrs\<lparr>a_name := JStr ''Fern''\<rparr>"

text \<open>User a registers and creates the fern; user b registers.\<close>

definition two_users :: "(env \<times> string option \<times> route) list" where
  "two_users =
     [(utc_env 1000 ''aa'', None, Register (JStr ''a@x.test'') (JStr ''pw123'')),
      (utc_env 2000 ''aa'', Some ''aa'', PostPlants fern),
      (utc_env 3000 ''bb'', None, Register (JStr ''b@x.test'') (JStr ''pw456''))]"

text \<open>The scenario of the specification: three waterings, the second backdated.\<close>

definition scenario :: "(env \<times> string option \<times> route) list" where
  "scenario =
     two_users @
     [(utc_env 4000 ''aa'', Some ''aa'', PostWater ''1'' (JStr ''2024-01-10'')),
      (utc_env 5000 ''aa'', Some ''aa'', PostWater ''1'' (JStr ''2024-01-05'')),
      (utc_env 6000 ''aa'', Some ''aa'', PostWater ''1'' (JStr ''2024-01-20''))]"

text \<open>
  A database with two plants: after the scenario, user b creates a cactus and waters it,
  and user a repots the fern on the day of its first watering.
\<close>

definition cactus :: attrs where
  "cactus = no_attrs\<lparr>a_name := JStr ''Cactus'', a_water_interval_days := JNum (Fin 30)\<rparr>"

definition garden :: "(env \<times> string option \<times> route) list" where
  "garden =
     scenario @
     [(utc_env 7000 ''bb'', Some ''bb'', PostPlants cactus),
      (utc_env 8000 ''bb'', Some ''bb'', PostWater ''2'' (JStr ''2024-02-01'')),
      (utc_env 9000 ''aa'', Some ''aa'', PostRepot ''1'' (JStr ''2024-01-10''))]"

text \<open>
  Two events of the fern on one day: the repotting appended before the watering, and the
  watering appended before the repotting.
\<close>

definition repot_then_water :: "(env \<times> string option \<times> route) list" where
  "repot_then_water =
     two_users @
     [(utc_env 4000 ''aa'', Some ''aa'', PostRepot ''1'' (JStr ''2024-01-10'')),
      (utc_env 5000 ''aa'', Some ''aa'', PostWater ''1'' (JStr ''2024-01-10''))]"

definition water_then_repot :: "(env \<times> string option \<times> route) list" where
  "water_then_repot =
     two_users @
     [(utc_env 4000 ''aa'', Some ''aa'', PostWater ''1'' (JStr ''2024-01-10'')),
      (utc_env 5000 ''aa'', Some ''aa'', PostRepot ''1'' (JStr ''2024-01-10''))]"

text \<open>
  User a also creates a moss whose watering interval is the text \<^verbatim>\<open>abc\<close>.
\<close>

definition moss :: attrs where
  "moss = no_attrs\<lparr>a_name := JStr ''Moss'', a_water_interval_days := JStr ''abc''\<rparr>"

definition with_moss :: "(env \<times> string option \<times> route) list" where
  "with_moss = two_users @ [(utc_env 4000 ''aa'', Some ''aa'', PostPlants moss)]"



section \<open>Properties\<close>

subsection \<open>Selecting a plant\<close>

lemma id_is_inj: "id_is n i \<Longrightarrow> id_is n j \<Longrightarrow> i = j"
  by (simp add: id_is_def)

lemma select_plant_SomeD:
  "select_plant d n uid = Some p \<Longrightarrow> p \<in> set (plants d) \<and> id_is n (p_id p) \<and> visible uid p"
  unfolding select_plant_def by (auto simp: find_Some_iff)

lemma select_plant_None_iff:
  "select_plant d n uid = None \<longleftrightarrow> (\<forall>p \<in> set (plants d). \<not> (id_is n (p_id p) \<and> visible uid p))"
  unfolding select_plant_def by (auto simp: find_None_iff)

lemma p_id_upd:
  "(\<And>q. p_id (f q) = p_id q) \<Longrightarrow> p_id \<circ> (\<lambda>q. if P q then f q else q) = p_id"
  by (auto simp: fun_eq_iff)

lemma find_distinct_key:
  assumes "distinct (map key xs)" and "x \<in> set xs" and "P x"
    and "\<And>y. y \<in> set xs \<Longrightarrow> P y \<Longrightarrow> key y = key x"
  shows "find P xs = Some x"
  using assms
proof (induction xs)
  case Nil
  then show ?case by simp
next
  case (Cons a xs)
  have dist: "distinct (map key xs)" and fresh: "key a \<notin> key ` set xs"
    using Cons.prems(1) by simp_all
  show ?case
  proof (cases "P a")
    case True
    have "key a = key x" using Cons.prems(4)[of a] True by simp
    with fresh have "x \<notin> set xs" by force
    with Cons.prems(2) have "a = x" by simp
    with True show ?thesis by simp
  next
    case False
    with Cons.prems(2,3) have mem: "x \<in> set xs" by auto
    have "find P xs = Some x"
    proof (rule Cons.IH[OF dist mem Cons.prems(3)])
      fix y
      assume "y \<in> set xs" and "P y"
      then show "key y = key x" using Cons.prems(4)[of y] by simp
    qed
    with False show ?thesis by simp
  qed
qed

subsection \<open>The maximum over the events of a plant\<close>

lemma Max_set_snoc: "Max (set (xs @ [x])) = (if xs = [] then x else max (Max (set xs)) (x::int))"
  by (simp add: max.commute)

lemma max_at_snoc:
  "max_at (evs @ [e]) i =
     (if plant_id e = i
      then (case max_at evs i of None \<Rightarrow> Some (ev_at e) | Some m \<Rightarrow> Some (max m (ev_at e)))
      else max_at evs i)"
proof (cases "plant_id e = i")
  case True
  then have "map ev_at (filter (\<lambda>e. plant_id e = i) (evs @ [e])) =
             map ev_at (filter (\<lambda>e. plant_id e = i) evs) @ [ev_at e]" by simp
  then show ?thesis using True unfolding max_at_def Let_def by (simp only: Max_set_snoc) simp
next
  case False
  then show ?thesis by (simp add: max_at_def)
qed

lemma max_at_filter_other:
  assumes "\<not> P i"
  shows "max_at (filter (\<lambda>e. \<not> P (plant_id e)) evs) i = max_at evs i"
proof -
  have "filter (\<lambda>e. plant_id e = i) (filter (\<lambda>e. \<not> P (plant_id e)) evs) =
        filter (\<lambda>e. plant_id e = i) evs"
    using assms by (induction evs) auto
  then show ?thesis by (simp add: max_at_def)
qed

lemma max_at_none: "\<forall>e \<in> set evs. plant_id e \<noteq> i \<Longrightarrow> max_at evs i = None"
  by (simp add: max_at_def filter_empty_conv)

lemma max_at_newer:
  "cached = max_at evs i \<Longrightarrow>
   max_at (evs @ [\<lparr>plant_id = i, ev_at = t, e_user_id = u\<rparr>]) i =
     (if newer t cached then Some t else cached)"
  by (auto simp: max_at_snoc newer_def split: option.splits)

subsection \<open>Appending an event\<close>

lemma post_water_fields:
  assumes "select_plant d n uid = Some p" and "normalizeDate e date = Inr t"
  shows "waterings (snd (post_water e uid n date d)) =
           waterings d @ [\<lparr>plant_id = p_id p, ev_at = t, e_user_id = uid\<rparr>]"
    and "plants (snd (post_water e uid n date d)) =
           (if newer t (last_watered p)
            then map (\<lambda>q. if id_is n (p_id q) then q\<lparr>last_watered := Some t\<rparr> else q) (plants d)
            else plants d)"
    and "repottings (snd (post_water e uid n date d)) = repottings d"
    and "plants_seq (snd (post_water e uid n date d)) = plants_seq d"
    and "users (snd (post_water e uid n date d)) = users d"
    and "sessions (snd (post_water e uid n date d)) = sessions d"
    and "fst (post_water e uid n date d) = Inr (At t)"
  using assms by (simp_all add: post_water_def Let_def)

lemma post_repot_fields:
  assumes "select_plant d n uid = Some p" and "normalizeDate e date = Inr t"
  shows "repottings (snd (post_repot e uid n date d)) =
           repottings d @ [\<lparr>plant_id = p_id p, ev_at = t, e_user_id = uid\<rparr>]"
    and "plants (snd (post_repot e uid n date d)) =
           (if newer t (last_repotted p)
            then map (\<lambda>q. if id_is n (p_id q) then q\<lparr>last_repotted := Some t\<rparr> else q) (plants d)
            else plants d)"
    and "waterings (snd (post_repot e uid n date d)) = waterings d"
    and "plants_seq (snd (post_repot e uid n date d)) = plants_seq d"
    and "users (snd (post_repot e uid n date d)) = users d"
    and "sessions (snd (post_repot e uid n date d)) = sessions d"
    and "fst (post_repot e uid n date d) = Inr (At t)"
  using assms by (simp_all add: post_repot_def Let_def)

lemma post_water_unchanged:
  "select_plant d n uid = None \<Longrightarrow> post_water e uid n date d = (Inl NotFound, d)"
  "select_plant d n uid = Some p \<Longrightarrow> normalizeDate e date = Inl x \<Longrightarrow>
     post_water e uid n date d = (Inl Internal, d)"
  by (simp_all add: post_water_def)

lemma post_repot_unchanged:
  "select_plant d n uid = None \<Longrightarrow> post_repot e uid n date d = (Inl NotFound, d)"
  "select_plant d n uid = Some p \<Longrightarrow> normalizeDate e date = Inl x \<Longrightarrow>
     post_repot e uid n date d = (Inl Internal, d)"
  by (simp_all add: post_repot_def)

lemma post_water_ids:
  assumes ok: "ids_issued d"
  shows "ids_issued (snd (post_water e uid n date d))"
proof (cases "select_plant d n uid")
  case None
  then show ?thesis using ok by (simp add: post_water_unchanged)
next
  case (Some p)
  note sel = select_plant_SomeD[OF Some]
  show ?thesis
  proof (cases "normalizeDate e date")
    case (Inl a)
    then show ?thesis using ok Some by (simp add: post_water_unchanged)
  next
    case (Inr t)
    have bnd: "p_id p \<le> plants_seq d" using ok sel by (simp add: ids_issued_def)
    show ?thesis
      unfolding ids_issued_def post_water_fields[OF Some Inr]
      using ok bnd by (auto simp: ids_issued_def p_id_upd)
  qed
qed

lemma post_repot_ids:
  assumes ok: "ids_issued d"
  shows "ids_issued (snd (post_repot e uid n date d))"
proof (cases "select_plant d n uid")
  case None
  then show ?thesis using ok by (simp add: post_repot_unchanged)
next
  case (Some p)
  note sel = select_plant_SomeD[OF Some]
  show ?thesis
  proof (cases "normalizeDate e date")
    case (Inl a)
    then show ?thesis using ok Some by (simp add: post_repot_unchanged)
  next
    case (Inr t)
    have bnd: "p_id p \<le> plants_seq d" using ok sel by (simp add: ids_issued_def)
    show ?thesis
      unfolding ids_issued_def post_repot_fields[OF Some Inr]
      using ok bnd by (auto simp: ids_issued_def p_id_upd)
  qed
qed

lemma post_water_cache:
  assumes ok: "cache_consistent d"
  shows "cache_consistent (snd (post_water e uid n date d))"
proof (cases "select_plant d n uid")
  case None
  then show ?thesis using ok by (simp add: post_water_unchanged)
next
  case (Some p)
  note sel = select_plant_SomeD[OF Some]
  show ?thesis
  proof (cases "normalizeDate e date")
    case (Inl a)
    then show ?thesis using ok Some by (simp add: post_water_unchanged)
  next
    case (Inr t)
    let ?ev = "\<lparr>plant_id = p_id p, ev_at = t, e_user_id = uid\<rparr>"
    have idq: "\<And>q. id_is n (p_id q) \<longleftrightarrow> p_id q = p_id p"
      using sel by (auto simp: id_is_def)
    have cq: "\<And>q. q \<in> set (plants d) \<Longrightarrow>
                last_watered q = max_at (waterings d) (p_id q) \<and>
                last_repotted q = max_at (repottings d) (p_id q)"
      using ok by (simp add: cache_consistent_def)
    have new: "max_at (waterings d @ [?ev]) (p_id p) =
               (if newer t (last_watered p) then Some t else last_watered p)"
      using cq sel by (simp add: max_at_newer)
    have other: "\<And>i. i \<noteq> p_id p \<Longrightarrow> max_at (waterings d @ [?ev]) i = max_at (waterings d) i"
      by (simp add: max_at_snoc)
    show ?thesis
      unfolding cache_consistent_def post_water_fields[OF Some Inr]
    proof (intro ballI)
      fix q'
      assume q': "q' \<in> set (if newer t (last_watered p)
            then map (\<lambda>q. if id_is n (p_id q) then q\<lparr>last_watered := Some t\<rparr> else q) (plants d)
            else plants d)"
      show "last_watered q' = max_at (waterings d @ [?ev]) (p_id q') \<and>
            last_repotted q' = max_at (repottings d) (p_id q')"
      proof (cases "newer t (last_watered p)")
        case True
        with q' obtain q where q: "q \<in> set (plants d)"
          and q'eq: "q' = (if id_is n (p_id q) then q\<lparr>last_watered := Some t\<rparr> else q)" by auto
        show ?thesis
        proof (cases "p_id q = p_id p")
          case same: True
          then show ?thesis using True new q'eq cq[OF q] by (simp add: idq)
        next
          case False
          then show ?thesis using q'eq cq[OF q] other by (simp add: idq)
        qed
      next
        case False
        with q' have q: "q' \<in> set (plants d)" by simp
        show ?thesis
        proof (cases "p_id q' = p_id p")
          case same: True
          have "last_watered q' = last_watered p" using cq[OF q] cq sel same by simp
          then show ?thesis using same False new cq[OF q] by simp
        next
          case False
          then show ?thesis using cq[OF q] other by simp
        qed
      qed
    qed
  qed
qed

lemma post_repot_cache:
  assumes ok: "cache_consistent d"
  shows "cache_consistent (snd (post_repot e uid n date d))"
proof (cases "select_plant d n uid")
  case None
  then show ?thesis using ok by (simp add: post_repot_unchanged)
next
  case (Some p)
  note sel = select_plant_SomeD[OF Some]
  show ?thesis
  proof (cases "normalizeDate e date")
    case (Inl a)
    then show ?thesis using ok Some by (simp add: post_repot_unchanged)
  next
    case (Inr t)
    let ?ev = "\<lparr>plant_id = p_id p, ev_at = t, e_user_id = uid\<rparr>"
    have idq: "\<And>q. id_is n (p_id q) \<longleftrightarrow> p_id q = p_id p"
      using sel by (auto simp: id_is_def)
    have cq: "\<And>q. q \<in> set (plants d) \<Longrightarrow>
                last_watered q = max_at (waterings d) (p_id q) \<and>
                last_repotted q = max_at (repottings d) (p_id q)"
      using ok by (simp add: cache_consistent_def)
    have new: "max_at (repottings d @ [?ev]) (p_id p) =
               (if newer t (last_repotted p) then Some t else last_repotted p)"
      using cq sel by (simp add: max_at_newer)
    have other: "\<And>i. i \<noteq> p_id p \<Longrightarrow> max_at (repottings d @ [?ev]) i = max_at (repottings d) i"
      by (simp add: max_at_snoc)
    show ?thesis
      unfolding cache_consistent_def post_repot_fields[OF Some Inr]
    proof (intro ballI)
      fix q'
      assume q': "q' \<in> set (if newer t (last_repotted p)
            then map (\<lambda>q. if id_is n (p_id q) then q\<lparr>last_repotted := Some t\<rparr> else q) (plants d)
            else plants d)"
      show "last_watered q' = max_at (waterings d) (p_id q') \<and>
            last_repotted q' = max_at (repottings d @ [?ev]) (p_id q')"
      proof (cases "newer t (last_repotted p)")
        case True
        with q' obtain q where q: "q \<in> set (plants d)"
          and q'eq: "q' = (if id_is n (p_id q) then q\<lparr>last_repotted := Some t\<rparr> else q)" by auto
        show ?thesis
        proof (cases "p_id q = p_id p")
          case same: True
          then show ?thesis using True new q'eq cq[OF q] by (simp add: idq)
        next
          case False
          then show ?thesis using q'eq cq[OF q] other by (simp add: idq)
        qed
      next
        case False
        with q' have q: "q' \<in> set (plants d)" by simp
        show ?thesis
        proof (cases "p_id q' = p_id p")
          case same: True
          have "last_repotted q' = last_repotted p" using cq[OF q] cq sel same by simp
          then show ?thesis using same False new cq[OF q] by simp
        next
          case False
          then show ?thesis using cq[OF q] other by simp
        qed
      qed
    qed
  qed
qed

subsection \<open>The invariants under every route\<close>

lemma db_ok_cong:
  "plants d' = plants d \<Longrightarrow> waterings d' = waterings d \<Longrightarrow> repottings d' = repottings d \<Longrightarrow>
   plants_seq d' = plants_seq d \<Longrightarrow> db_ok d' = db_ok d"
  by (simp add: db_ok_def ids_issued_def cache_consistent_def)

lemma requireAuth_cases:
  "requireAuth d c f = (Inl Unauthorized, d) \<or> (\<exists>sid uid em. getSession d c = Some (sid, uid, em) \<and> requireAuth d c f = f uid)"
  by (auto simp: requireAuth_def split: option.splits)

lemma post_plants_cases:
  "post_plants uid b d = (Inl ValidationError, d) \<or> post_plants uid b d = (Inl Internal, d) \<or>
   (\<exists>vs.
      truthy (a_name b) \<and>
      run_params 7
        [a_name b, a_species b, a_location b,
         JNum (Number (js_or (a_water_interval_days b) (JNum (Fin 7)))),
         JNum (Number (js_or (a_repot_interval_days b) (JNum (Fin 365)))),
         a_notes b, JNum (Fin (of_int uid))] = Some vs \<and>
      vs ! 0 \<noteq> SqlNull \<and>
      post_plants uid b d =
        (Inr (NewId (plants_seq d + 1)),
         d\<lparr>plants := plants d @
              [\<lparr>p_id = plants_seq d + 1, p_name = vs ! 0, species = vs ! 1, location = vs ! 2,
                water_interval_days = vs ! 3, repot_interval_days = vs ! 4, p_notes = vs ! 5,
                last_watered = None, last_repotted = None, p_user_id = Some uid\<rparr>],
           plants_seq := plants_seq d + 1\<rparr>))"
proof (cases "truthy (a_name b)")
  case False
  then show ?thesis by (simp add: post_plants_def)
next
  case True
  show ?thesis
  proof (cases "run_params 7
        [a_name b, a_species b, a_location b,
         JNum (Number (js_or (a_water_interval_days b) (JNum (Fin 7)))),
         JNum (Number (js_or (a_repot_interval_days b) (JNum (Fin 365)))),
         a_notes b, JNum (Fin (of_int uid))]")
    case None
    then show ?thesis using True by (simp add: post_plants_def)
  next
    case (Some vs)
    show ?thesis
    proof (cases "vs ! 0 = SqlNull")
      case null: True
      then show ?thesis using True Some by (simp add: post_plants_def)
    next
      case False
      have "post_plants uid b d =
        (Inr (NewId (plants_seq d + 1)),
         d\<lparr>plants := plants d @
              [\<lparr>p_id = plants_seq d + 1, p_name = vs ! 0, species = vs ! 1, location = vs ! 2,
                water_interval_days = vs ! 3, repot_interval_days = vs ! 4, p_notes = vs ! 5,
                last_watered = None, last_repotted = None, p_user_id = Some uid\<rparr>],
           plants_seq := plants_seq d + 1\<rparr>)"
        using True Some False by (simp add: post_plants_def Let_def)
      then show ?thesis using True Some False by blast
    qed
  qed
qed

lemma db_ok_new_plant:
  assumes ok: "db_ok d"
    and p: "p_id p = plants_seq d + 1" "last_watered p = None" "last_repotted p = None"
  shows "db_ok (d\<lparr>plants := plants d @ [p], plants_seq := plants_seq d + 1\<rparr>)"
proof -
  have b: "\<forall>e \<in> set (waterings d) \<union> set (repottings d). plant_id e \<le> plants_seq d"
    and bp: "\<forall>q \<in> set (plants d). p_id q \<le> plants_seq d"
    using ok by (simp_all add: db_ok_def ids_issued_def)
  have w: "\<forall>e \<in> set (waterings d). plant_id e \<noteq> plants_seq d + 1"
  proof
    fix e assume "e \<in> set (waterings d)"
    then have "plant_id e \<le> plants_seq d" using b by blast
    then show "plant_id e \<noteq> plants_seq d + 1" by linarith
  qed
  have r: "\<forall>e \<in> set (repottings d). plant_id e \<noteq> plants_seq d + 1"
  proof
    fix e assume "e \<in> set (repottings d)"
    then have "plant_id e \<le> plants_seq d" using b by blast
    then show "plant_id e \<noteq> plants_seq d + 1" by linarith
  qed
  have q: "\<forall>q \<in> set (plants d). p_id q \<noteq> plants_seq d + 1"
  proof
    fix q assume "q \<in> set (plants d)"
    then have "p_id q \<le> plants_seq d" using bp by blast
    then show "p_id q \<noteq> plants_seq d + 1" by linarith
  qed
  let ?d = "d\<lparr>plants := plants d @ [p], plants_seq := plants_seq d + 1\<rparr>"
  have sel: "plants ?d = plants d @ [p]" "plants_seq ?d = plants_seq d + 1"
    "waterings ?d = waterings d" "repottings ?d = repottings d"
    by simp_all
  have dist: "distinct (map p_id (plants d))"
    using ok by (simp add: db_ok_def ids_issued_def)
  have "p_id p \<notin> p_id ` set (plants d)" using q p(1) by auto
  then have d1: "distinct (map p_id (plants d @ [p]))" using dist by simp
  have d2: "\<forall>q \<in> set (plants d @ [p]). p_id q \<le> plants_seq d + 1"
  proof
    fix q assume "q \<in> set (plants d @ [p])"
    then have "q \<in> set (plants d) \<or> q = p" by auto
    then show "p_id q \<le> plants_seq d + 1" using bp p(1) by fastforce
  qed
  have d3: "\<forall>e \<in> set (waterings d) \<union> set (repottings d). plant_id e \<le> plants_seq d + 1"
  proof
    fix e assume "e \<in> set (waterings d) \<union> set (repottings d)"
    then have "plant_id e \<le> plants_seq d" using b by blast
    then show "plant_id e \<le> plants_seq d + 1" by linarith
  qed
  have i: "ids_issued ?d"
    unfolding ids_issued_def sel using d1 d2 d3 by blast
  have cc: "\<forall>q \<in> set (plants d). last_watered q = max_at (waterings d) (p_id q) \<and>
                last_repotted q = max_at (repottings d) (p_id q)"
    using ok by (simp add: db_ok_def cache_consistent_def)
  have "\<forall>q \<in> set (plants d @ [p]). last_watered q = max_at (waterings d) (p_id q) \<and>
                last_repotted q = max_at (repottings d) (p_id q)"
  proof
    fix q assume "q \<in> set (plants d @ [p])"
    then have "q \<in> set (plants d) \<or> q = p" by auto
    then show "last_watered q = max_at (waterings d) (p_id q) \<and>
                last_repotted q = max_at (repottings d) (p_id q)"
      using cc p max_at_none[OF w] max_at_none[OF r] by auto
  qed
  then have "cache_consistent ?d"
    unfolding cache_consistent_def sel .
  with i show ?thesis by (simp only: db_ok_def) 
qed

lemma post_plants_ok:
  assumes ok: "db_ok d"
  shows "db_ok (snd (post_plants uid b d))"
  using post_plants_cases[of uid b d]
proof (elim disjE exE conjE)
  fix vs
  assume "post_plants uid b d =
        (Inr (NewId (plants_seq d + 1)),
         d\<lparr>plants := plants d @
              [\<lparr>p_id = plants_seq d + 1, p_name = vs ! 0, species = vs ! 1, location = vs ! 2,
                water_interval_days = vs ! 3, repot_interval_days = vs ! 4, p_notes = vs ! 5,
                last_watered = None, last_repotted = None, p_user_id = Some uid\<rparr>],
           plants_seq := plants_seq d + 1\<rparr>)"
  then show ?thesis using db_ok_new_plant[OF ok] by simp
qed (use ok in simp_all)

lemma put_plant_cases:
  "put_plant uid n b d = (Inl NotFound, d) \<or> put_plant uid n b d = (Inl Internal, d) \<or>
   (\<exists>p vs.
      select_plant d n uid = Some p \<and>
      run_params 7
        [nullish (a_name b) (column (p_name p)),
         nullish (a_species b) (column (species p)),
         nullish (a_location b) (column (location p)),
         JNum (Number (nullish (a_water_interval_days b) (column (water_interval_days p)))),
         JNum (Number (nullish (a_repot_interval_days b) (column (repot_interval_days p)))),
         nullish (a_notes b) (column (p_notes p)),
         JNum n] = Some vs \<and>
      vs ! 0 \<noteq> SqlNull \<and>
      put_plant uid n b d =
        (Inr Done,
         d\<lparr>plants := map (\<lambda>q. if id_is n (p_id q)
                               then q\<lparr>p_name := vs ! 0, species := vs ! 1, location := vs ! 2,
                                      water_interval_days := vs ! 3,
                                      repot_interval_days := vs ! 4, p_notes := vs ! 5\<rparr>
                               else q) (plants d)\<rparr>))"
proof (cases "select_plant d n uid")
  case None
  then show ?thesis by (simp add: put_plant_def)
next
  case (Some p)
  show ?thesis
  proof (cases "run_params 7
        [nullish (a_name b) (column (p_name p)),
         nullish (a_species b) (column (species p)),
         nullish (a_location b) (column (location p)),
         JNum (Number (nullish (a_water_interval_days b) (column (water_interval_days p)))),
         JNum (Number (nullish (a_repot_interval_days b) (column (repot_interval_days p)))),
         nullish (a_notes b) (column (p_notes p)),
         JNum n]")
    case None
    then show ?thesis using Some by (simp add: put_plant_def)
  next
    case v: (Some vs)
    show ?thesis
    proof (cases "vs ! 0 = SqlNull")
      case True
      then show ?thesis using Some v by (simp add: put_plant_def)
    next
      case False
      with v Some have "put_plant uid n b d =
        (Inr Done,
         d\<lparr>plants := map (\<lambda>q. if id_is n (p_id q)
                               then q\<lparr>p_name := vs ! 0, species := vs ! 1, location := vs ! 2,
                                      water_interval_days := vs ! 3,
                                      repot_interval_days := vs ! 4, p_notes := vs ! 5\<rparr>
                               else q) (plants d)\<rparr>)"
        by (simp add: put_plant_def)
      with v Some False show ?thesis by blast
    qed
  qed
qed

lemma db_ok_put:
  assumes ok: "db_ok d"
    and f: "\<And>q. p_id (f q) = p_id q \<and> last_watered (f q) = last_watered q \<and>
                 last_repotted (f q) = last_repotted q"
  shows "db_ok (d\<lparr>plants := map (\<lambda>q. if P q then f q else q) (plants d)\<rparr>)"
proof -
  have "ids_issued (d\<lparr>plants := map (\<lambda>q. if P q then f q else q) (plants d)\<rparr>)"
    using ok f by (auto simp: db_ok_def ids_issued_def p_id_upd)
  moreover have "cache_consistent (d\<lparr>plants := map (\<lambda>q. if P q then f q else q) (plants d)\<rparr>)"
    using ok f by (auto simp: db_ok_def cache_consistent_def)
  ultimately show ?thesis by (simp add: db_ok_def)
qed

lemma put_plant_ok:
  assumes ok: "db_ok d"
  shows "db_ok (snd (put_plant uid n b d))"
  using put_plant_cases[of uid n b d]
proof (elim disjE exE conjE)
  fix p vs
  assume "put_plant uid n b d =
        (Inr Done,
         d\<lparr>plants := map (\<lambda>q. if id_is n (p_id q)
                               then q\<lparr>p_name := vs ! 0, species := vs ! 1, location := vs ! 2,
                                      water_interval_days := vs ! 3,
                                      repot_interval_days := vs ! 4, p_notes := vs ! 5\<rparr>
                               else q) (plants d)\<rparr>)"
  moreover have "db_ok (d\<lparr>plants := map (\<lambda>q. if id_is n (p_id q)
                               then q\<lparr>p_name := vs ! 0, species := vs ! 1, location := vs ! 2,
                                      water_interval_days := vs ! 3,
                                      repot_interval_days := vs ! 4, p_notes := vs ! 5\<rparr>
                               else q) (plants d)\<rparr>)"
    by (rule db_ok_put[OF ok]) simp
  ultimately show ?thesis by simp
qed (use ok in simp_all)

lemma delete_plant_cases:
  "delete_plant uid n d = (Inl NotFound, d) \<or>
   ((\<exists>p. select_plant d n uid = Some p) \<and>
    delete_plant uid n d = (Inr Done, delete_plants n (delete_repottings n (delete_waterings n d))))"
  by (auto simp: delete_plant_def split: option.splits)

lemma delete_statements_ok:
  assumes ok: "db_ok d"
  shows "db_ok (delete_plants n (delete_repottings n (delete_waterings n d)))"
proof -
  let ?d = "delete_plants n (delete_repottings n (delete_waterings n d))"
  have f: "plants ?d = filter (\<lambda>p. \<not> id_is n (p_id p)) (plants d)"
          "waterings ?d = filter (\<lambda>e. \<not> id_is n (plant_id e)) (waterings d)"
          "repottings ?d = filter (\<lambda>e. \<not> id_is n (plant_id e)) (repottings d)"
          "plants_seq ?d = plants_seq d"
    by (simp_all add: delete_plants_def delete_repottings_def delete_waterings_def)
  have "ids_issued ?d"
    unfolding ids_issued_def f using ok by (auto simp: db_ok_def ids_issued_def distinct_map_filter)
  moreover have "cache_consistent ?d"
    unfolding cache_consistent_def f using ok
    by (auto simp: db_ok_def cache_consistent_def max_at_filter_other[where P = "id_is n"])
  ultimately show ?thesis by (simp add: db_ok_def)
qed

lemma delete_plant_ok: "db_ok d \<Longrightarrow> db_ok (snd (delete_plant uid n d))"
  using delete_plant_cases[of uid n d] delete_statements_ok[of d n] by auto

lemma post_water_ok: "db_ok d \<Longrightarrow> db_ok (snd (post_water e uid n date d))"
  by (simp add: db_ok_def post_water_ids post_water_cache)

lemma post_repot_ok: "db_ok d \<Longrightarrow> db_ok (snd (post_repot e uid n date d))"
  by (simp add: db_ok_def post_repot_ids post_repot_cache)

lemma get_history_unchanged: "snd (get_history uid n d) = d"
  by (simp add: get_history_def split: option.splits)

lemma get_plants_unchanged: "snd (get_plants uid d) = d"
  by (simp add: get_plants_def)

lemma get_me_unchanged: "snd (get_me c d) = d"
  by (simp add: get_me_def split: option.splits)

lemma createSession_plants:
  "createSession e uid d = Inr (sid, d') \<Longrightarrow>
   plants d' = plants d \<and> waterings d' = waterings d \<and> repottings d' = repottings d \<and>
   plants_seq d' = plants_seq d \<and> users d' = users d \<and> users_seq d' = users_seq d"
  by (auto simp: createSession_def Let_def split: if_splits)

lemma post_register_cases:
  "post_register e em pw d = (Inl ValidationError, d) \<or>
   post_register e em pw d = (Inl Internal, d) \<or>
   post_register e em pw d = (Inl Conflict, d) \<or>
   (\<exists>em' hash.
      post_register e em pw d =
        (case createSession e (users_seq d + 1)
                (d\<lparr>users := users d @
                     [\<lparr>u_id = users_seq d + 1, email = em', password_hash = hash\<rparr>],
                   users_seq := users_seq d + 1\<rparr>) of
           Inl _ \<Rightarrow>
             (Inl Conflict,
              d\<lparr>users := users d @
                   [\<lparr>u_id = users_seq d + 1, email = em', password_hash = hash\<rparr>],
                 users_seq := users_seq d + 1\<rparr>)
         | Inr (sid, d2) \<Rightarrow> (Inr (SetCookie sid), d2)))"
  by (simp add: post_register_def Let_def
           split: json.splits option.splits list.splits) blast

lemma post_register_plants:
  "plants (snd (post_register e em pw d)) = plants d \<and>
   waterings (snd (post_register e em pw d)) = waterings d \<and>
   repottings (snd (post_register e em pw d)) = repottings d \<and>
   plants_seq (snd (post_register e em pw d)) = plants_seq d"
  using post_register_cases[of e em pw d]
  by (elim disjE exE) (auto split: sum.splits dest!: createSession_plants)

lemma post_login_cases:
  "post_login e em pw d = (Inl InvalidCredentials, d, []) \<or>
   post_login e em pw d = (Inl Internal, d, []) \<or>
   (\<exists>(u :: user) s. post_login e em pw d =
            (Inl InvalidCredentials, d, [Bcrypt_compare s (password_hash u)])) \<or>
   (\<exists>(u :: user) s. post_login e em pw d =
            (case createSession e (u_id u) d of
               Inl _ \<Rightarrow> (Inl Internal, d, [Bcrypt_compare s (password_hash u)])
             | Inr (sid, d1) \<Rightarrow> (Inr (SetCookie sid), d1, [Bcrypt_compare s (password_hash u)])))"
  by (simp add: post_login_def Let_def
           split: json.splits option.splits list.splits) blast

lemma post_login_plants:
  "plants (fst (snd (post_login e em pw d))) = plants d \<and>
   waterings (fst (snd (post_login e em pw d))) = waterings d \<and>
   repottings (fst (snd (post_login e em pw d))) = repottings d \<and>
   plants_seq (fst (snd (post_login e em pw d))) = plants_seq d"
  using post_login_cases[of e em pw d]
  by (elim disjE exE) (auto split: sum.splits dest!: createSession_plants)

lemma post_logout_plants:
  "plants (snd (post_logout c d)) = plants d \<and>
   waterings (snd (post_logout c d)) = waterings d \<and>
   repottings (snd (post_logout c d)) = repottings d \<and>
   plants_seq (snd (post_logout c d)) = plants_seq d"
  by (simp add: post_logout_def destroySession_def split: option.splits)

lemma requireAuth_ok:
  "db_ok d \<Longrightarrow> (\<And>uid. db_ok (snd (f uid))) \<Longrightarrow> db_ok (snd (requireAuth d c f))"
  using requireAuth_cases[of d c f] by (elim disjE exE conjE) simp_all

lemma handle_login: "handle e c (Login em pw) d =
    (fst (post_login e em pw d), fst (snd (post_login e em pw d)))"
  by (cases "post_login e em pw d") simp

lemma handle_ok:
  assumes ok: "db_ok d"
  shows "db_ok (snd (handle e c r d))"
proof (cases r)
  case (Register em pw)
  have "db_ok (snd (post_register e em pw d)) = db_ok d"
    using post_register_plants[of e em pw d] by (intro db_ok_cong) simp_all
  then show ?thesis using ok Register by simp
next
  case (Login em pw)
  have "db_ok (fst (snd (post_login e em pw d))) = db_ok d"
    using post_login_plants[of e em pw d] by (intro db_ok_cong) simp_all
  then show ?thesis using ok Login by (simp add: handle_login del: handle.simps)
next
  case Logout
  have "db_ok (snd (post_logout c d)) = db_ok d"
    using post_logout_plants[of c d] by (intro db_ok_cong) simp_all
  then show ?thesis using ok Logout by simp
next
  case GetMe
  then show ?thesis using ok by (simp add: get_me_unchanged)
next
  case GetPlants
  then show ?thesis using ok by (simp add: requireAuth_ok get_plants_unchanged)
next
  case (PostPlants b)
  then show ?thesis using ok by (simp add: requireAuth_ok post_plants_ok)
next
  case (PutPlant i b)
  then show ?thesis using ok by (simp add: requireAuth_ok put_plant_ok)
next
  case (DeletePlant i)
  then show ?thesis using ok by (simp add: requireAuth_ok delete_plant_ok)
next
  case (PostWater i date)
  then show ?thesis using ok by (simp add: requireAuth_ok post_water_ok)
next
  case (PostRepot i date)
  then show ?thesis using ok by (simp add: requireAuth_ok post_repot_ok)
next
  case (GetHistory i)
  then show ?thesis using ok by (simp add: requireAuth_ok get_history_unchanged)
qed

lemma run_ok: "db_ok d \<Longrightarrow> db_ok (run rs d)"
proof (induction rs arbitrary: d)
  case Nil
  then show ?case by simp
next
  case (Cons x rs)
  obtain e c r where x: "x = (e, c, r)" by (cases x)
  have "db_ok (snd (handle e c r d))" using Cons.prems by (rule handle_ok)
  then show ?case using Cons.IH x by simp
qed

lemma run_append: "run (rs @ rs') d = run rs' (run rs d)"
proof (induction rs arbitrary: d)
  case Nil
  then show ?case by simp
next
  case (Cons x rs)
  obtain e c r where "x = (e, c, r)" by (cases x)
  then show ?case using Cons.IH by simp
qed

lemma empty_db_ok: "db_ok empty_db"
  by (simp add: db_ok_def ids_issued_def cache_consistent_def empty_db_def)

subsection \<open>The cached last-event fields\<close>

lemma select_after_update:
  assumes dist: "distinct (map p_id (plants d))"
    and sel: "select_plant d n uid = Some p"
    and f: "\<And>q. p_id (f q) = p_id q \<and> p_user_id (f q) = p_user_id q"
  shows "select_plant (d'\<lparr>plants := map (\<lambda>q. if id_is n (p_id q) then f q else q) (plants d)\<rparr>) n uid
         = Some (f p)"
proof -
  note s = select_plant_SomeD[OF sel]
  let ?ps = "map (\<lambda>q. if id_is n (p_id q) then f q else q) (plants d)"
  have "find (\<lambda>q. id_is n (p_id q) \<and> visible uid q) ?ps = Some (f p)"
  proof (rule find_distinct_key[where key = p_id])
    show "distinct (map p_id ?ps)" using dist f by (simp add: p_id_upd)
    show "f p \<in> set ?ps" using s by force
    show "id_is n (p_id (f p)) \<and> visible uid (f p)" using s f by (simp add: visible_def)
    fix y assume "y \<in> set ?ps" and "id_is n (p_id y) \<and> visible uid y"
    then have "p_id y = p_id p" using s id_is_inj[of n "p_id y" "p_id p"] by simp
    then show "p_id y = p_id (f p)" using f by simp
  qed
  then show ?thesis by (simp add: select_plant_def)
qed

lemma select_plant_cong:
  "plants d' = plants d \<Longrightarrow> select_plant d' n uid = select_plant d n uid"
  by (simp add: select_plant_def)

lemma select_after_water:
  assumes dist: "distinct (map p_id (plants d))"
    and sel: "select_plant d n uid = Some p" and nd: "normalizeDate e date = Inr t"
  shows "select_plant (snd (post_water e uid n date d)) n uid =
           Some (p\<lparr>last_watered := (if newer t (last_watered p) then Some t else last_watered p)\<rparr>)"
proof (cases "newer t (last_watered p)")
  case True
  have "snd (post_water e uid n date d) =
        (d\<lparr>waterings := waterings d @ [\<lparr>plant_id = p_id p, ev_at = t, e_user_id = uid\<rparr>]\<rparr>)
         \<lparr>plants := map (\<lambda>q. if id_is n (p_id q) then q\<lparr>last_watered := Some t\<rparr> else q) (plants d)\<rparr>"
    using sel nd True by (simp add: post_water_def Let_def)
  moreover have "select_plant
        ((d\<lparr>waterings := waterings d @ [\<lparr>plant_id = p_id p, ev_at = t, e_user_id = uid\<rparr>]\<rparr>)
         \<lparr>plants := map (\<lambda>q. if id_is n (p_id q) then q\<lparr>last_watered := Some t\<rparr> else q) (plants d)\<rparr>)
        n uid = Some (p\<lparr>last_watered := Some t\<rparr>)"
    by (rule select_after_update[OF dist sel]) simp
  ultimately have "select_plant (snd (post_water e uid n date d)) n uid = Some (p\<lparr>last_watered := Some t\<rparr>)"
    by (simp only:)
  then show ?thesis using True by (simp only: if_True)
next
  case False
  have "plants (snd (post_water e uid n date d)) = plants d"
    using False by (simp add: post_water_fields[OF sel nd])
  then have "select_plant (snd (post_water e uid n date d)) n uid = Some p"
    using sel select_plant_cong[of "snd (post_water e uid n date d)" d n uid] by simp
  moreover have "p\<lparr>last_watered := last_watered p\<rparr> = p" by simp
  ultimately show ?thesis using False by (simp only: if_False)
qed

lemma select_after_repot:
  assumes dist: "distinct (map p_id (plants d))"
    and sel: "select_plant d n uid = Some p" and nd: "normalizeDate e date = Inr t"
  shows "select_plant (snd (post_repot e uid n date d)) n uid =
           Some (p\<lparr>last_repotted := (if newer t (last_repotted p) then Some t else last_repotted p)\<rparr>)"
proof (cases "newer t (last_repotted p)")
  case True
  have "snd (post_repot e uid n date d) =
        (d\<lparr>repottings := repottings d @ [\<lparr>plant_id = p_id p, ev_at = t, e_user_id = uid\<rparr>]\<rparr>)
         \<lparr>plants := map (\<lambda>q. if id_is n (p_id q) then q\<lparr>last_repotted := Some t\<rparr> else q) (plants d)\<rparr>"
    using sel nd True by (simp add: post_repot_def Let_def)
  moreover have "select_plant
        ((d\<lparr>repottings := repottings d @ [\<lparr>plant_id = p_id p, ev_at = t, e_user_id = uid\<rparr>]\<rparr>)
         \<lparr>plants := map (\<lambda>q. if id_is n (p_id q) then q\<lparr>last_repotted := Some t\<rparr> else q) (plants d)\<rparr>)
        n uid = Some (p\<lparr>last_repotted := Some t\<rparr>)"
    by (rule select_after_update[OF dist sel]) simp
  ultimately have "select_plant (snd (post_repot e uid n date d)) n uid = Some (p\<lparr>last_repotted := Some t\<rparr>)"
    by (simp only:)
  then show ?thesis using True by (simp only: if_True)
next
  case False
  have "plants (snd (post_repot e uid n date d)) = plants d"
    using False by (simp add: post_repot_fields[OF sel nd])
  then have "select_plant (snd (post_repot e uid n date d)) n uid = Some p"
    using sel select_plant_cong[of "snd (post_repot e uid n date d)" d n uid] by simp
  moreover have "p\<lparr>last_repotted := last_repotted p\<rparr> = p" by simp
  ultimately show ?thesis using False by (simp only: if_False)
qed

lemma newer_cases:
  "(if newer t cached then Some t else cached) =
     (case cached of None \<Rightarrow> Some t | Some l \<Rightarrow> if t \<le> l then Some l else Some t)"
  by (auto simp: newer_def split: option.splits)

lemma two_users_state:
  "run two_users empty_db =
     \<lparr>users = [\<lparr>u_id = 1, email = ''a@x.test'', password_hash = ''$2b$11$pw123''\<rparr>,
               \<lparr>u_id = 2, email = ''b@x.test'', password_hash = ''$2b$11$pw456''\<rparr>],
      users_seq = 2,
      sessions = [\<lparr>s_id = ''aa'', s_user_id = 1, s_created_at = 1000\<rparr>,
                  \<lparr>s_id = ''bb'', s_user_id = 2, s_created_at = 3000\<rparr>],
      plants = [\<lparr>p_id = 1, p_name = SqlText ''Fern'', species = SqlNull, location = SqlNull,
                 water_interval_days = SqlNum 7, repot_interval_days = SqlNum 365,
                 p_notes = SqlNull, last_watered = None, last_repotted = None,
                 p_user_id = Some 1\<rparr>],
      plants_seq = 1, waterings = [], repottings = []\<rparr>"
  by code_simp

lemma scenario_state:
  "run scenario empty_db =
     \<lparr>users = [\<lparr>u_id = 1, email = ''a@x.test'', password_hash = ''$2b$11$pw123''\<rparr>,
               \<lparr>u_id = 2, email = ''b@x.test'', password_hash = ''$2b$11$pw456''\<rparr>],
      users_seq = 2,
      sessions = [\<lparr>s_id = ''aa'', s_user_id = 1, s_created_at = 1000\<rparr>,
                  \<lparr>s_id = ''bb'', s_user_id = 2, s_created_at = 3000\<rparr>],
      plants = [\<lparr>p_id = 1, p_name = SqlText ''Fern'', species = SqlNull, location = SqlNull,
                 water_interval_days = SqlNum 7, repot_interval_days = SqlNum 365,
                 p_notes = SqlNull, last_watered = Some 1705708800000, last_repotted = None,
                 p_user_id = Some 1\<rparr>],
      plants_seq = 1,
      waterings = [\<lparr>plant_id = 1, ev_at = 1704844800000, e_user_id = 1\<rparr>,
                   \<lparr>plant_id = 1, ev_at = 1704412800000, e_user_id = 1\<rparr>,
                   \<lparr>plant_id = 1, ev_at = 1705708800000, e_user_id = 1\<rparr>],
      repottings = []\<rparr>"
  by code_simp

text \<open>
  C1. From a database whose cached fields are the maxima over the events (the empty
  database is one), after any sequence of requests, appends in any order of their
  timestamps among them, \<open>last_watered\<close> of every plant is the maximum \<open>at\<close> over its
  waterings and \<open>last_repotted\<close> the maximum over its repottings, unset when there is
  none. And one append to a plant the user can reach leaves the cached field as it is when
  the timestamp is at most the cached one, and sets it to the timestamp when that is
  later or the field is unset.
\<close>

theorem cached_fields_are_maxima:
  assumes "db_ok d"
  shows "cache_consistent (run rs d) \<and>
         (select_plant (run rs d) n uid = Some p \<and> normalizeDate e date = Inr t \<longrightarrow>
            select_plant (snd (post_water e uid n date (run rs d))) n uid =
              Some (p\<lparr>last_watered :=
                        (case last_watered p of
                           None \<Rightarrow> Some t
                         | Some l \<Rightarrow> if t \<le> l then Some l else Some t)\<rparr>) \<and>
            select_plant (snd (post_repot e uid n date (run rs d))) n uid =
              Some (p\<lparr>last_repotted :=
                        (case last_repotted p of
                           None \<Rightarrow> Some t
                         | Some l \<Rightarrow> if t \<le> l then Some l else Some t)\<rparr>))"
proof -
  have ok: "db_ok (run rs d)" using assms by (rule run_ok)
  then have dist: "distinct (map p_id (plants (run rs d)))"
    by (simp add: db_ok_def ids_issued_def)
  show ?thesis
    using ok select_after_water[OF dist, of n uid p e date t]
      select_after_repot[OF dist, of n uid p e date t]
    by (simp add: db_ok_def newer_cases)
qed

theorem cached_fields_are_maxima_witness:
  "db_ok empty_db \<and>
   cache_consistent (run scenario empty_db) \<and>
   map last_watered (plants (run scenario empty_db)) = [Some 1705708800000] \<and>
   max_at (waterings (run scenario empty_db)) 1 = Some 1705708800000 \<and>
   map last_watered (plants (run (take 5 scenario) empty_db)) = [Some 1704844800000] \<and>
   select_plant (run scenario empty_db) (Fin 1) 1 =
     Some \<lparr>p_id = 1, p_name = SqlText ''Fern'', species = SqlNull, location = SqlNull,
           water_interval_days = SqlNum 7, repot_interval_days = SqlNum 365,
           p_notes = SqlNull, last_watered = Some 1705708800000, last_repotted = None,
           p_user_id = Some 1\<rparr> \<and>
   normalizeDate (utc_env 7000 ''aa'') (JStr ''2024-01-02'') = Inr 1704153600000 \<and>
   map last_watered
     (plants (snd (post_water (utc_env 7000 ''aa'') 1 (Fin 1) (JStr ''2024-01-02'')
                    (run scenario empty_db)))) = [Some 1705708800000] \<and>
   map last_repotted
     (plants (snd (post_repot (utc_env 7000 ''aa'') 1 (Fin 1) (JStr ''2024-01-02'')
                    (run scenario empty_db)))) = [Some 1704153600000]"
proof -
  have sel: "select_plant (run scenario empty_db) (Fin 1) 1 =
     Some \<lparr>p_id = 1, p_name = SqlText ''Fern'', species = SqlNull, location = SqlNull,
           water_interval_days = SqlNum 7, repot_interval_days = SqlNum 365,
           p_notes = SqlNull, last_watered = Some 1705708800000, last_repotted = None,
           p_user_id = Some 1\<rparr>"
    by (simp add: scenario_state select_plant_def id_is_def visible_def)
  have nd: "normalizeDate (utc_env 7000 ''aa'') (JStr ''2024-01-02'') = Inr 1704153600000"
    by code_simp
  have five: "map last_watered (plants (run (take 5 scenario) empty_db)) = [Some 1704844800000]"
    by code_simp
  have mx: "max_at (waterings (run scenario empty_db)) 1 = Some 1705708800000"
    by (simp add: scenario_state max_at_def)
  have w: "map last_watered
     (plants (snd (post_water (utc_env 7000 ''aa'') 1 (Fin 1) (JStr ''2024-01-02'')
                    (run scenario empty_db)))) = [Some 1705708800000]"
    by (simp add: scenario_state post_water_def select_plant_def id_is_def visible_def nd
        newer_def)
  have r: "map last_repotted
     (plants (snd (post_repot (utc_env 7000 ''aa'') 1 (Fin 1) (JStr ''2024-01-02'')
                    (run scenario empty_db)))) = [Some 1704153600000]"
    by (simp add: scenario_state post_repot_def select_plant_def id_is_def visible_def nd
        newer_def)
  from cached_fields_are_maxima[OF empty_db_ok, of scenario "Fin 1" 1 _ "utc_env 7000 ''aa''"
         "JStr ''2024-01-02''" 1704153600000]
  have "cache_consistent (run scenario empty_db)" by simp
  then show ?thesis using empty_db_ok sel nd five mx w r by (simp add: scenario_state)
qed

subsection \<open>Records of another user\<close>

lemma foreign_select_None:
  assumes ids: "ids_issued d" and r: "r \<in> set (plants d)"
    and own: "p_user_id r = Some owner" "owner \<noteq> uid" and n: "id_is n (p_id r)"
  shows "select_plant d n uid = None"
proof -
  have inj: "inj_on p_id (set (plants d))"
    using ids by (simp add: ids_issued_def distinct_map)
  have "\<not> (id_is n (p_id q) \<and> visible uid q)" if q: "q \<in> set (plants d)" for q
  proof
    assume a: "id_is n (p_id q) \<and> visible uid q"
    then have "p_id q = p_id r" using n id_is_inj by blast
    then have "q = r" using inj q r by (simp add: inj_on_def)
    then show False using a own by (simp add: visible_def)
  qed
  then show ?thesis by (simp add: select_plant_None_iff)
qed

lemma requireAuth_Some:
  "getSession d c = Some (sid, uid, em) \<Longrightarrow> requireAuth d c f = f uid"
  by (simp add: requireAuth_def)

text \<open>
  C2. A user with a valid session who names a record owned by another user gets
  \<open>NotFound\<close> from update, delete, both appends and the history, each leaving the whole
  database as it was, and the list of the user's records does not show the record.
\<close>

theorem foreign_record_not_found:
  assumes "ids_issued d" and "getSession d c = Some (sid, uid, em)"
    and "r \<in> set (plants d)" and "p_user_id r = Some owner" and "owner \<noteq> uid"
    and "id_is (Number (JStr i)) (p_id r)"
  shows "handle e c (PutPlant i b) d = (Inl NotFound, d) \<and>
         handle e c (DeletePlant i) d = (Inl NotFound, d) \<and>
         handle e c (PostWater i date) d = (Inl NotFound, d) \<and>
         handle e c (PostRepot i date) d = (Inl NotFound, d) \<and>
         handle e c (GetHistory i) d = (Inl NotFound, d) \<and>
         (\<exists>ps. handle e c GetPlants d = (Inr (Plants ps), d) \<and> r \<notin> set ps)"
proof -
  have none: "select_plant d (Number (JStr i)) uid = None"
    using assms(1,3,4,5,6) by (rule foreign_select_None)
  have auth: "\<And>f. requireAuth d c f = f uid"
    using assms(2) by (rule requireAuth_Some)
  have "\<not> visible uid r" using assms(4,5) by (simp add: visible_def)
  then have "r \<notin> set (sort_key (\<lambda>p. - p_id p) (filter (visible uid) (plants d)))" by simp
  then have "\<exists>ps. handle e c GetPlants d = (Inr (Plants ps), d) \<and> r \<notin> set ps"
    by (simp add: auth get_plants_def)
  then show ?thesis
    using none
    by (simp add: auth put_plant_def delete_plant_def post_water_def post_repot_def
        get_history_def)
qed

theorem foreign_record_not_found_witness:
  "ids_issued (run two_users empty_db) \<and>
   getSession (run two_users empty_db) (Some ''bb'') = Some (''bb'', 2, ''b@x.test'') \<and>
   hd (plants (run two_users empty_db)) \<in> set (plants (run two_users empty_db)) \<and>
   p_user_id (hd (plants (run two_users empty_db))) = Some 1 \<and>
   id_is (Number (JStr ''1'')) (p_id (hd (plants (run two_users empty_db)))) \<and>
   handle (utc_env 9000 ''cc'') (Some ''bb'') (PutPlant ''1'' (no_attrs\<lparr>a_name := JStr ''Mine''\<rparr>))
     (run two_users empty_db) = (Inl NotFound, run two_users empty_db) \<and>
   handle (utc_env 9000 ''cc'') (Some ''bb'') (DeletePlant ''1'') (run two_users empty_db)
     = (Inl NotFound, run two_users empty_db) \<and>
   handle (utc_env 9000 ''cc'') (Some ''bb'') (PostWater ''1'' JUndefined) (run two_users empty_db)
     = (Inl NotFound, run two_users empty_db) \<and>
   handle (utc_env 9000 ''cc'') (Some ''bb'') (PostRepot ''1'' JUndefined) (run two_users empty_db)
     = (Inl NotFound, run two_users empty_db) \<and>
   handle (utc_env 9000 ''cc'') (Some ''bb'') (GetHistory ''1'') (run two_users empty_db)
     = (Inl NotFound, run two_users empty_db) \<and>
   handle (utc_env 9000 ''cc'') (Some ''bb'') GetPlants (run two_users empty_db)
     = (Inr (Plants []), run two_users empty_db)"
proof -
  have ids: "ids_issued (run two_users empty_db)"
    using run_ok[OF empty_db_ok, of two_users] by (simp add: db_ok_def)
  have sess: "getSession (run two_users empty_db) (Some ''bb'') = Some (''bb'', 2, ''b@x.test'')"
    by (simp add: two_users_state getSession_def)
  have mem: "hd (plants (run two_users empty_db)) \<in> set (plants (run two_users empty_db))"
    by (simp add: two_users_state)
  have own: "p_user_id (hd (plants (run two_users empty_db))) = Some 1"
    by (simp add: two_users_state)
  have idn: "id_is (Number (JStr ''1'')) (p_id (hd (plants (run two_users empty_db))))"
    by code_simp
  have lst: "handle (utc_env 9000 ''cc'') (Some ''bb'') GetPlants (run two_users empty_db)
     = (Inr (Plants []), run two_users empty_db)"
    by (simp add: requireAuth_Some[OF sess] get_plants_def) (simp add: two_users_state visible_def)
  show ?thesis
    using foreign_record_not_found[OF ids sess mem own _ idn,
        of "utc_env 9000 ''cc''" "no_attrs\<lparr>a_name := JStr ''Mine''\<rparr>" JUndefined]
      ids sess mem own idn lst
    by simp
qed

subsection \<open>Deleting a record\<close>

lemma requireAuth_snd:
  "P d \<Longrightarrow> (\<And>uid. P (snd (f uid))) \<Longrightarrow> P (snd (requireAuth d c f))"
  using requireAuth_cases[of d c f] by (elim disjE exE conjE) simp_all

lemma post_plants_pids:
  "plants_seq d \<le> plants_seq (snd (post_plants uid b d)) \<and>
   p_id ` set (plants (snd (post_plants uid b d))) \<subseteq> insert (plants_seq d + 1) (p_id ` set (plants d))"
  using post_plants_cases[of uid b d] by (elim disjE exE conjE) auto

lemma put_plant_pids:
  "plants_seq d \<le> plants_seq (snd (put_plant uid n b d)) \<and>
   p_id ` set (plants (snd (put_plant uid n b d))) \<subseteq> insert (plants_seq d + 1) (p_id ` set (plants d))"
  using put_plant_cases[of uid n b d] by (elim disjE exE conjE) auto

lemma delete_plant_pids:
  "plants_seq d \<le> plants_seq (snd (delete_plant uid n d)) \<and>
   p_id ` set (plants (snd (delete_plant uid n d))) \<subseteq> insert (plants_seq d + 1) (p_id ` set (plants d))"
  using delete_plant_cases[of uid n d]
  by (elim disjE exE conjE) (auto simp: delete_plants_def delete_repottings_def delete_waterings_def)

lemma post_water_pids:
  "plants_seq d \<le> plants_seq (snd (post_water e uid n date d)) \<and>
   p_id ` set (plants (snd (post_water e uid n date d))) \<subseteq> insert (plants_seq d + 1) (p_id ` set (plants d))"
proof (cases "select_plant d n uid")
  case None
  then show ?thesis by (auto simp: post_water_unchanged)
next
  case (Some p)
  show ?thesis
  proof (cases "normalizeDate e date")
    case (Inl a)
    then show ?thesis using Some by (auto simp: post_water_unchanged)
  next
    case (Inr t)
    show ?thesis unfolding post_water_fields[OF Some Inr] by auto
  qed
qed

lemma post_repot_pids:
  "plants_seq d \<le> plants_seq (snd (post_repot e uid n date d)) \<and>
   p_id ` set (plants (snd (post_repot e uid n date d))) \<subseteq> insert (plants_seq d + 1) (p_id ` set (plants d))"
proof (cases "select_plant d n uid")
  case None
  then show ?thesis by (auto simp: post_repot_unchanged)
next
  case (Some p)
  show ?thesis
  proof (cases "normalizeDate e date")
    case (Inl a)
    then show ?thesis using Some by (auto simp: post_repot_unchanged)
  next
    case (Inr t)
    show ?thesis unfolding post_repot_fields[OF Some Inr] by auto
  qed
qed

lemma handle_pids:
  "plants_seq d \<le> plants_seq (snd (handle e c r d)) \<and>
   p_id ` set (plants (snd (handle e c r d))) \<subseteq> insert (plants_seq d + 1) (p_id ` set (plants d))"
proof (cases r)
  case (Register em pw)
  then show ?thesis using post_register_plants[of e em pw d] by auto
next
  case (Login em pw)
  then show ?thesis using post_login_plants[of e em pw d]
    by (auto simp: handle_login simp del: handle.simps)
next
  case Logout
  then show ?thesis using post_logout_plants[of c d] by auto
next
  case GetMe
  then show ?thesis by (auto simp: get_me_unchanged)
next
  case GetPlants
  have "plants_seq d \<le> plants_seq (snd (requireAuth d c (\<lambda>uid. get_plants uid d))) \<and>
    p_id ` set (plants (snd (requireAuth d c (\<lambda>uid. get_plants uid d))))
      \<subseteq> insert (plants_seq d + 1) (p_id ` set (plants d))"
    by (rule requireAuth_snd) (auto simp: get_plants_unchanged)
  then show ?thesis using GetPlants by simp
next
  case (PostPlants b)
  have "plants_seq d \<le> plants_seq (snd (requireAuth d c (\<lambda>uid. post_plants uid b d))) \<and>
    p_id ` set (plants (snd (requireAuth d c (\<lambda>uid. post_plants uid b d))))
      \<subseteq> insert (plants_seq d + 1) (p_id ` set (plants d))"
    by (rule requireAuth_snd) (auto simp: post_plants_pids)
  then show ?thesis using PostPlants by simp
next
  case (PutPlant i b)
  have "plants_seq d \<le> plants_seq (snd (requireAuth d c (\<lambda>uid. put_plant uid (Number (JStr i)) b d))) \<and>
    p_id ` set (plants (snd (requireAuth d c (\<lambda>uid. put_plant uid (Number (JStr i)) b d))))
      \<subseteq> insert (plants_seq d + 1) (p_id ` set (plants d))"
    by (rule requireAuth_snd) (auto simp: put_plant_pids)
  then show ?thesis using PutPlant by simp
next
  case (DeletePlant i)
  have "plants_seq d \<le> plants_seq (snd (requireAuth d c (\<lambda>uid. delete_plant uid (Number (JStr i)) d))) \<and>
    p_id ` set (plants (snd (requireAuth d c (\<lambda>uid. delete_plant uid (Number (JStr i)) d))))
      \<subseteq> insert (plants_seq d + 1) (p_id ` set (plants d))"
    by (rule requireAuth_snd) (auto simp: delete_plant_pids)
  then show ?thesis using DeletePlant by simp
next
  case (PostWater i date)
  have "plants_seq d \<le> plants_seq (snd (requireAuth d c (\<lambda>uid. post_water e uid (Number (JStr i)) date d))) \<and>
    p_id ` set (plants (snd (requireAuth d c (\<lambda>uid. post_water e uid (Number (JStr i)) date d))))
      \<subseteq> insert (plants_seq d + 1) (p_id ` set (plants d))"
    by (rule requireAuth_snd) (auto simp: post_water_pids)
  then show ?thesis using PostWater by simp
next
  case (PostRepot i date)
  have "plants_seq d \<le> plants_seq (snd (requireAuth d c (\<lambda>uid. post_repot e uid (Number (JStr i)) date d))) \<and>
    p_id ` set (plants (snd (requireAuth d c (\<lambda>uid. post_repot e uid (Number (JStr i)) date d))))
      \<subseteq> insert (plants_seq d + 1) (p_id ` set (plants d))"
    by (rule requireAuth_snd) (auto simp: post_repot_pids)
  then show ?thesis using PostRepot by simp
next
  case (GetHistory i)
  have "plants_seq d \<le> plants_seq (snd (requireAuth d c (\<lambda>uid. get_history uid (Number (JStr i)) d))) \<and>
    p_id ` set (plants (snd (requireAuth d c (\<lambda>uid. get_history uid (Number (JStr i)) d))))
      \<subseteq> insert (plants_seq d + 1) (p_id ` set (plants d))"
    by (rule requireAuth_snd) (auto simp: get_history_unchanged)
  then show ?thesis using GetHistory by simp
qed

lemma run_retired:
  "i \<le> plants_seq d \<Longrightarrow> i \<notin> p_id ` set (plants d) \<Longrightarrow>
   i \<le> plants_seq (run rs d) \<and> i \<notin> p_id ` set (plants (run rs d))"
proof (induction rs arbitrary: d)
  case Nil
  then show ?case by simp
next
  case (Cons x rs)
  obtain e c r where x: "x = (e, c, r)" by (cases x)
  have "i \<le> plants_seq (snd (handle e c r d))" "i \<notin> p_id ` set (plants (snd (handle e c r d)))"
    using handle_pids[of d e c r] Cons.prems by auto
  then show ?case using Cons.IH x by simp
qed

lemma select_plant_retired:
  "i \<notin> p_id ` set (plants d) \<Longrightarrow> id_is n i \<Longrightarrow> select_plant d n uid = None"
  unfolding select_plant_None_iff using id_is_inj by blast

text \<open>
  C8. A delete of a record the user can reach answers ok. Its first two statements
  remove the waterings and the repottings of the record while the record is still there;
  the third removes the record. What is left of each table is exactly the rows of the
  other records, in their order. From then on, whatever requests follow, no user can
  select the id again: the history, and every other route that names the id, answers
  \<open>NotFound\<close>.
\<close>

theorem delete_cascades:
  assumes "ids_issued d" and "select_plant d n uid = Some p"
  shows "delete_plant uid n d =
           (Inr Done, delete_plants n (delete_repottings n (delete_waterings n d))) \<and>
         p \<in> set (plants (delete_repottings n (delete_waterings n d))) \<and>
         (\<forall>e \<in> set (waterings (delete_repottings n (delete_waterings n d))) \<union>
                set (repottings (delete_repottings n (delete_waterings n d))).
            plant_id e \<noteq> p_id p) \<and>
         plants (snd (delete_plant uid n d)) = filter (\<lambda>q. p_id q \<noteq> p_id p) (plants d) \<and>
         waterings (snd (delete_plant uid n d)) = filter (\<lambda>e. plant_id e \<noteq> p_id p) (waterings d) \<and>
         repottings (snd (delete_plant uid n d)) = filter (\<lambda>e. plant_id e \<noteq> p_id p) (repottings d) \<and>
         select_plant (run rs (snd (delete_plant uid n d))) n u = None \<and>
         get_history u n (run rs (snd (delete_plant uid n d))) =
           (Inl NotFound, run rs (snd (delete_plant uid n d)))"
proof -
  note s = select_plant_SomeD[OF assms(2)]
  have idq: "\<And>i. id_is n i \<longleftrightarrow> i = p_id p"
    using s by (auto simp: id_is_def)
  let ?d' = "snd (delete_plant uid n d)"
  have del: "delete_plant uid n d =
           (Inr Done, delete_plants n (delete_repottings n (delete_waterings n d)))"
    using assms(2) by (simp add: delete_plant_def)
  have f: "plants ?d' = filter (\<lambda>q. p_id q \<noteq> p_id p) (plants d)"
          "waterings ?d' = filter (\<lambda>e. plant_id e \<noteq> p_id p) (waterings d)"
          "repottings ?d' = filter (\<lambda>e. plant_id e \<noteq> p_id p) (repottings d)"
          "plants_seq ?d' = plants_seq d"
    by (simp_all add: del delete_plants_def delete_repottings_def delete_waterings_def idq)
  have mid: "p \<in> set (plants (delete_repottings n (delete_waterings n d)))"
    "\<forall>e \<in> set (waterings (delete_repottings n (delete_waterings n d))) \<union>
           set (repottings (delete_repottings n (delete_waterings n d))). plant_id e \<noteq> p_id p"
    using s by (auto simp: delete_repottings_def delete_waterings_def idq)
  have "p_id p \<le> plants_seq ?d'" using assms(1) s by (simp add: f ids_issued_def)
  moreover have "p_id p \<notin> p_id ` set (plants ?d')" by (auto simp: f)
  ultimately have "p_id p \<notin> p_id ` set (plants (run rs ?d'))"
    using run_retired[of "p_id p" ?d' rs] by simp
  then have none: "select_plant (run rs ?d') n u = None"
    using s by (simp add: select_plant_retired)
  then have "get_history u n (run rs ?d') = (Inl NotFound, run rs ?d')"
    by (simp add: get_history_def)
  then show ?thesis using del mid f none by simp
qed

lemma garden_state:
  "run garden empty_db =
     \<lparr>users = [\<lparr>u_id = 1, email = ''a@x.test'', password_hash = ''$2b$11$pw123''\<rparr>,
               \<lparr>u_id = 2, email = ''b@x.test'', password_hash = ''$2b$11$pw456''\<rparr>],
      users_seq = 2,
      sessions = [\<lparr>s_id = ''aa'', s_user_id = 1, s_created_at = 1000\<rparr>,
                  \<lparr>s_id = ''bb'', s_user_id = 2, s_created_at = 3000\<rparr>],
      plants = [\<lparr>p_id = 1, p_name = SqlText ''Fern'', species = SqlNull, location = SqlNull,
                 water_interval_days = SqlNum 7, repot_interval_days = SqlNum 365,
                 p_notes = SqlNull, last_watered = Some 1705708800000,
                 last_repotted = Some 1704844800000, p_user_id = Some 1\<rparr>,
                \<lparr>p_id = 2, p_name = SqlText ''Cactus'', species = SqlNull, location = SqlNull,
                 water_interval_days = SqlNum 30, repot_interval_days = SqlNum 365,
                 p_notes = SqlNull, last_watered = Some 1706745600000, last_repotted = None,
                 p_user_id = Some 2\<rparr>],
      plants_seq = 2,
      waterings = [\<lparr>plant_id = 1, ev_at = 1704844800000, e_user_id = 1\<rparr>,
                   \<lparr>plant_id = 1, ev_at = 1704412800000, e_user_id = 1\<rparr>,
                   \<lparr>plant_id = 1, ev_at = 1705708800000, e_user_id = 1\<rparr>,
                   \<lparr>plant_id = 2, ev_at = 1706745600000, e_user_id = 2\<rparr>],
      repottings = [\<lparr>plant_id = 1, ev_at = 1704844800000, e_user_id = 1\<rparr>]\<rparr>"
  by code_simp

theorem delete_cascades_witness:
  "ids_issued (run garden empty_db) \<and>
   select_plant (run garden empty_db) (Fin 1) 1 = Some (hd (plants (run garden empty_db))) \<and>
   fst (delete_plant 1 (Fin 1) (run garden empty_db)) = Inr Done \<and>
   map p_id (plants (snd (delete_plant 1 (Fin 1) (run garden empty_db)))) = [2] \<and>
   waterings (snd (delete_plant 1 (Fin 1) (run garden empty_db))) =
     [\<lparr>plant_id = 2, ev_at = 1706745600000, e_user_id = 2\<rparr>] \<and>
   repottings (snd (delete_plant 1 (Fin 1) (run garden empty_db))) = [] \<and>
   get_history 1 (Fin 1)
     (run [(utc_env 9500 ''aa'', Some ''aa'', PostPlants fern)]
        (snd (delete_plant 1 (Fin 1) (run garden empty_db)))) =
     (Inl NotFound,
      run [(utc_env 9500 ''aa'', Some ''aa'', PostPlants fern)]
        (snd (delete_plant 1 (Fin 1) (run garden empty_db))))"
proof -
  have ids: "ids_issued (run garden empty_db)"
    using run_ok[OF empty_db_ok, of garden] by (simp add: db_ok_def)
  have sel: "select_plant (run garden empty_db) (Fin 1) 1 = Some (hd (plants (run garden empty_db)))"
    by (simp add: garden_state select_plant_def id_is_def visible_def)
  have flt: "filter (\<lambda>q. p_id q \<noteq> p_id (hd (plants (run garden empty_db)))) (plants (run garden empty_db))
               = tl (plants (run garden empty_db))"
            "filter (\<lambda>e. plant_id e \<noteq> p_id (hd (plants (run garden empty_db)))) (waterings (run garden empty_db))
               = [\<lparr>plant_id = 2, ev_at = 1706745600000, e_user_id = 2\<rparr>]"
            "filter (\<lambda>e. plant_id e \<noteq> p_id (hd (plants (run garden empty_db)))) (repottings (run garden empty_db))
               = []"
            "map p_id (tl (plants (run garden empty_db))) = [2]"
    by (simp_all add: garden_state)
  note th = delete_cascades[OF ids sel, of "[(utc_env 9500 ''aa'', Some ''aa'', PostPlants fern)]" 1]
  note rest = th[THEN conjunct2, THEN conjunct2, THEN conjunct2]
  have a: "fst (delete_plant 1 (Fin 1) (run garden empty_db)) = Inr Done"
    by (simp only: th[THEN conjunct1] fst_conv)
  have b: "map p_id (plants (snd (delete_plant 1 (Fin 1) (run garden empty_db)))) = [2]"
    by (simp only: rest[THEN conjunct1] flt)
  have c: "waterings (snd (delete_plant 1 (Fin 1) (run garden empty_db))) =
     [\<lparr>plant_id = 2, ev_at = 1706745600000, e_user_id = 2\<rparr>]"
    by (simp only: rest[THEN conjunct2, THEN conjunct1] flt)
  have d: "repottings (snd (delete_plant 1 (Fin 1) (run garden empty_db))) = []"
    by (simp only: rest[THEN conjunct2, THEN conjunct2, THEN conjunct1] flt)
  note e = rest[THEN conjunct2, THEN conjunct2, THEN conjunct2, THEN conjunct2]
  show ?thesis
    by (intro conjI) (fact ids sel a b c d e)+
qed

subsection \<open>The history\<close>

lemma select_events_eq: "select_events k n evs = by_time_desc (events_of k n evs)"
  by (simp add: select_events_def events_of_def)

lemma mset_by_time_desc: "mset (by_time_desc xs) = mset xs"
  by (simp add: by_time_desc_def)

lemma sorted_by_time_desc: "sorted_wrt (\<lambda>x y. snd y \<le> snd x) (by_time_desc xs)"
proof -
  have "sorted (map (\<lambda>x. - snd x) (by_time_desc xs))"
    by (simp add: by_time_desc_def)
  then show ?thesis by (simp add: sorted_map)
qed

lemma ties_by_time_desc:
  "filter (\<lambda>x. snd x = t) (by_time_desc xs) = filter (\<lambda>x. snd x = (t::int)) xs"
proof -
  have "filter (\<lambda>x. - snd x = - t) (sort_key (\<lambda>x. - snd x) xs) = filter (\<lambda>x. - snd x = - t) xs"
    by (rule sort_key_stable)
  then show ?thesis by (simp add: by_time_desc_def)
qed

lemma same_kind_ties:
  assumes "\<forall>x \<in> set xs. fst x = k"
  shows "filter (\<lambda>x. snd x = t) xs = replicate (count (mset xs) (k, t)) (k, t)"
  using assms
proof (induction xs)
  case Nil
  then show ?case by simp
next
  case (Cons a xs)
  obtain t' where a: "a = (k, t')" using Cons.prems by (cases a) auto
  have IH: "filter (\<lambda>x. snd x = t) xs = replicate (count (mset xs) (k, t)) (k, t)"
    using Cons by simp
  show ?case by (cases "t' = t") (simp_all add: a IH)
qed

lemma events_of_kind: "\<forall>x \<in> set (events_of k n evs). fst x = k"
  by (auto simp: events_of_def)

text \<open>
  The order in which a query returns the rows of one table does not show in the reply:
  rows of one kind with one timestamp are equal. So the order of the ISO texts, which
  \<^verbatim>\<open>ORDER BY at\<close> compares, need not be the order of the time values.
\<close>

lemma history_independent_of_row_order:
  assumes w: "mset ws = mset (events_of watered n W)"
    and r: "mset rs = mset (events_of repotted n R)"
  shows "by_time_desc (ws @ rs) =
         by_time_desc (select_events watered n W @ select_events repotted n R)"
proof -
  have kw: "\<forall>x \<in> set ws. fst x = watered"
    using events_of_kind[of watered n W] mset_eq_setD[OF w] by simp
  have kr: "\<forall>x \<in> set rs. fst x = repotted"
    using events_of_kind[of repotted n R] mset_eq_setD[OF r] by simp
  have tw: "filter (\<lambda>x. snd x = t) ws = filter (\<lambda>x. snd x = t) (events_of watered n W)" for t
    by (simp add: same_kind_ties[OF kw] same_kind_ties[OF events_of_kind] w)
  have tr: "filter (\<lambda>x. snd x = t) rs = filter (\<lambda>x. snd x = t) (events_of repotted n R)" for t
    by (simp add: same_kind_ties[OF kr] same_kind_ties[OF events_of_kind] r)
  let ?h = "by_time_desc (select_events watered n W @ select_events repotted n R)"
  have "sort_key (\<lambda>x. - snd x) (ws @ rs) = ?h"
  proof (rule properties_for_sort_key)
    show "mset ?h = mset (ws @ rs)"
      by (simp add: mset_by_time_desc select_events_eq w r)
    show "sorted (map (\<lambda>x. - snd x) ?h)"
      by (simp add: by_time_desc_def)
    fix k assume "k \<in> set ?h"
    have "filter (\<lambda>x. snd x = snd k) ?h = filter (\<lambda>x. snd x = snd k) (ws @ rs)"
      by (simp add: ties_by_time_desc select_events_eq tw tr)
    then show "filter (\<lambda>x. - snd k = - snd x) ?h = filter (\<lambda>x. - snd k = - snd x) (ws @ rs)"
      by (simp add: eq_commute)
  qed
  then show ?thesis by (simp add: by_time_desc_def)
qed

text \<open>
  C4, as the code has it. The history of a record the user can reach holds every watering
  and every repotting of the record, as pairs of kind and timestamp, latest first; among
  the entries of one timestamp the waterings stand before the repottings, whichever was
  appended first. (Entries of one kind and one timestamp are equal, so no order among
  them can be seen.)
\<close>

theorem history_latest_first_waterings_before_repottings:
  assumes "select_plant d n uid = Some p"
  shows "\<exists>h. get_history uid n d = (Inr (History h), d) \<and>
             mset h = mset (events_of watered n (waterings d)) +
                      mset (events_of repotted n (repottings d)) \<and>
             sorted_wrt (\<lambda>x y. snd y \<le> snd x) h \<and>
             (\<forall>t. filter (\<lambda>x. snd x = t) h =
                    filter (\<lambda>x. snd x = t) (events_of watered n (waterings d)) @
                    filter (\<lambda>x. snd x = t) (events_of repotted n (repottings d)))"
proof -
  let ?h = "by_time_desc (select_events watered n (waterings d) @
                          select_events repotted n (repottings d))"
  have "get_history uid n d = (Inr (History ?h), d)"
    using assms by (simp add: get_history_def)
  moreover have "mset ?h = mset (events_of watered n (waterings d)) +
                           mset (events_of repotted n (repottings d))"
    by (simp add: mset_by_time_desc select_events_eq)
  moreover have "sorted_wrt (\<lambda>x y. snd y \<le> snd x) ?h"
    by (rule sorted_by_time_desc)
  moreover have "\<forall>t. filter (\<lambda>x. snd x = t) ?h =
                    filter (\<lambda>x. snd x = t) (events_of watered n (waterings d)) @
                    filter (\<lambda>x. snd x = t) (events_of repotted n (repottings d))"
    by (simp add: ties_by_time_desc select_events_eq)
  ultimately show ?thesis by blast
qed

theorem history_latest_first_waterings_before_repottings_witness:
  "select_plant (run garden empty_db) (Fin 1) 1 = Some (hd (plants (run garden empty_db))) \<and>
   get_history 1 (Fin 1) (run garden empty_db) =
     (Inr (History [(watered, 1705708800000), (watered, 1704844800000),
                    (repotted, 1704844800000), (watered, 1704412800000)]),
      run garden empty_db) \<and>
   events_of watered (Fin 1) (waterings (run garden empty_db)) =
     [(watered, 1704844800000), (watered, 1704412800000), (watered, 1705708800000)] \<and>
   events_of repotted (Fin 1) (repottings (run garden empty_db)) = [(repotted, 1704844800000)]"
proof -
  have sel: "select_plant (run garden empty_db) (Fin 1) 1 = Some (hd (plants (run garden empty_db)))"
    by (simp add: garden_state select_plant_def id_is_def visible_def)
  have w: "events_of watered (Fin 1) (waterings (run garden empty_db)) =
     [(watered, 1704844800000), (watered, 1704412800000), (watered, 1705708800000)]"
    by (simp add: garden_state events_of_def id_is_def)
  have r: "events_of repotted (Fin 1) (repottings (run garden empty_db)) = [(repotted, 1704844800000)]"
    by (simp add: garden_state events_of_def id_is_def)
  have h: "by_time_desc (select_events watered (Fin 1) (waterings (run garden empty_db)) @
                         select_events repotted (Fin 1) (repottings (run garden empty_db))) =
           [(watered, 1705708800000), (watered, 1704844800000),
            (repotted, 1704844800000), (watered, 1704412800000)]"
    by (simp add: select_events_eq w r by_time_desc_def)
  from history_latest_first_waterings_before_repottings[OF sel]
  obtain h' where "get_history 1 (Fin 1) (run garden empty_db) = (Inr (History h'), run garden empty_db)"
    by blast
  moreover have "get_history 1 (Fin 1) (run garden empty_db) =
     (Inr (History [(watered, 1705708800000), (watered, 1704844800000),
                    (repotted, 1704844800000), (watered, 1704412800000)]),
      run garden empty_db)"
    using sel h by (simp add: get_history_def)
  ultimately show ?thesis using sel w r by simp
qed

lemma tie_states:
  "waterings (run repot_then_water empty_db) = [\<lparr>plant_id = 1, ev_at = 1704844800000, e_user_id = 1\<rparr>]"
  "repottings (run repot_then_water empty_db) = [\<lparr>plant_id = 1, ev_at = 1704844800000, e_user_id = 1\<rparr>]"
  "waterings (run water_then_repot empty_db) = [\<lparr>plant_id = 1, ev_at = 1704844800000, e_user_id = 1\<rparr>]"
  "repottings (run water_then_repot empty_db) = [\<lparr>plant_id = 1, ev_at = 1704844800000, e_user_id = 1\<rparr>]"
  "getSession (run repot_then_water empty_db) (Some ''aa'') = Some (''aa'', 1, ''a@x.test'')"
  "getSession (run water_then_repot empty_db) (Some ''aa'') = Some (''aa'', 1, ''a@x.test'')"
  "select_plant (run repot_then_water empty_db) (Fin 1) 1 \<noteq> None"
  "select_plant (run water_then_repot empty_db) (Fin 1) 1 \<noteq> None"
  by code_simp+

text \<open>
  C4 as stated fails on a tie between the two kinds. A repotting appended before a
  watering of the same day comes after it in the history, against the order of insertion;
  and a watering appended before a repotting of the same day comes before it, against
  the reading that puts the later insertion first.
\<close>

theorem history_tie_counterexample:
  "fst (handle (utc_env 6000 ''aa'') (Some ''aa'') (GetHistory ''1'') (run repot_then_water empty_db))
     = Inr (History [(watered, 1704844800000), (repotted, 1704844800000)]) \<and>
   history_by_insertion [(repotted, 1704844800000), (watered, 1704844800000)]
     = [(repotted, 1704844800000), (watered, 1704844800000)] \<and>
   fst (handle (utc_env 6000 ''aa'') (Some ''aa'') (GetHistory ''1'') (run water_then_repot empty_db))
     = Inr (History [(watered, 1704844800000), (repotted, 1704844800000)]) \<and>
   history_latest_insert_first [(watered, 1704844800000), (repotted, 1704844800000)]
     = [(repotted, 1704844800000), (watered, 1704844800000)]"
proof -
  have n: "Number (JStr ''1'') = Fin 1" by code_simp
  from tie_states(7) obtain p where
    s7: "select_plant (run repot_then_water empty_db) (Fin 1) 1 = Some p" by blast
  from tie_states(8) obtain q where
    s8: "select_plant (run water_then_repot empty_db) (Fin 1) 1 = Some q" by blast
  have a: "fst (handle (utc_env 6000 ''aa'') (Some ''aa'') (GetHistory ''1'') (run repot_then_water empty_db))
     = Inr (History [(watered, 1704844800000), (repotted, 1704844800000)])"
    using s7
    by (simp only: handle.simps requireAuth_Some[OF tie_states(5)] n)
       (simp add: get_history_def select_events_def by_time_desc_def tie_states id_is_def)
  have b: "fst (handle (utc_env 6000 ''aa'') (Some ''aa'') (GetHistory ''1'') (run water_then_repot empty_db))
     = Inr (History [(watered, 1704844800000), (repotted, 1704844800000)])"
    using s8
    by (simp only: handle.simps requireAuth_Some[OF tie_states(6)] n)
       (simp add: get_history_def select_events_def by_time_desc_def tie_states id_is_def)
  show ?thesis using a b
    by (simp add: history_by_insertion_def history_latest_insert_first_def)
qed

subsection \<open>Updating a record\<close>

lemma bind_column: "bind (column v) = Some v"
  by (cases v) auto

lemma primitive_column: "primitive (column v)"
  by (cases v) auto

lemma primitive_nullish: "primitive a \<Longrightarrow> primitive (nullish a (column v))"
  by (simp add: nullish_def primitive_column)

lemma bind_arg_primitive: "primitive a \<Longrightarrow> bind_arg a = map_option (\<lambda>x. [x]) (bind a)"
  by (cases a) auto

lemma is_object_primitive: "primitive a \<Longrightarrow> \<not> is_object a"
  by (cases a) auto

text \<open>An argument that is neither an array nor an object is the value of one parameter.\<close>

lemma run_params_Cons:
  assumes "primitive a"
  shows "run_params (Suc n) (a # args) =
           (case bind a of None \<Rightarrow> None | Some v \<Rightarrow> map_option ((#) v) (run_params n args))"
proof (cases "bind a")
  case None
  then show ?thesis using assms
    by (simp add: run_params_def bind_arg_primitive is_object_primitive)
next
  case (Some v)
  show ?thesis
  proof (cases "those (map bind_arg args)")
    case None
    then show ?thesis using assms Some
      by (simp add: run_params_def bind_arg_primitive is_object_primitive)
  next
    case vss: (Some vss)
    then show ?thesis using assms Some
      by (simp add: run_params_def bind_arg_primitive is_object_primitive)
  qed
qed

lemma run_params_Cons_numeral:
  "primitive a \<Longrightarrow>
   run_params (numeral k) (a # args) =
     (case bind a of None \<Rightarrow> None
      | Some v \<Rightarrow> map_option ((#) v) (run_params (pred_numeral k) args))"
  using run_params_Cons[of a "pred_numeral k" args] by (simp add: numeral_eq_Suc)


lemma run_params_primitive:
  assumes "primitive a0" "primitive a1" "primitive a2" "primitive a5"
    and "run_params 7 [a0, a1, a2, JNum w, JNum r, a5, JNum u] = Some vs"
  shows "bind a0 = Some (vs ! 0) \<and> bind a1 = Some (vs ! 1) \<and> bind a2 = Some (vs ! 2) \<and>
         bind (JNum w) = Some (vs ! 3) \<and> bind (JNum r) = Some (vs ! 4) \<and>
         bind a5 = Some (vs ! 5)"
proof -
  have e: "run_params 0 [] = Some []" by (simp add: run_params_def)
  obtain v0 v1 v2 v3 v4 v5 v6 where
    "bind a0 = Some v0" "bind a1 = Some v1" "bind a2 = Some v2"
    "bind (JNum w) = Some v3" "bind (JNum r) = Some v4" "bind a5 = Some v5"
    "vs = [v0, v1, v2, v3, v4, v5, v6]"
    using assms
    by (auto simp: run_params_Cons_numeral run_params_Cons e simp del: bind.simps
        split: option.splits)
  then show ?thesis by simp
qed

text \<open>
  Whatever the input and whatever the outcome, an update leaves the ids, the owners and
  the cached timestamps of all plants, and all other tables, as they were.
\<close>

lemma put_plant_keeps_owner_and_cache:
  "map p_id (plants (snd (put_plant uid n b d))) = map p_id (plants d) \<and>
   map p_user_id (plants (snd (put_plant uid n b d))) = map p_user_id (plants d) \<and>
   map last_watered (plants (snd (put_plant uid n b d))) = map last_watered (plants d) \<and>
   map last_repotted (plants (snd (put_plant uid n b d))) = map last_repotted (plants d) \<and>
   waterings (snd (put_plant uid n b d)) = waterings d \<and>
   repottings (snd (put_plant uid n b d)) = repottings d \<and>
   users (snd (put_plant uid n b d)) = users d \<and>
   sessions (snd (put_plant uid n b d)) = sessions d"
  using put_plant_cases[of uid n b d]
proof (elim disjE exE conjE)
  fix p vs
  assume eq: "put_plant uid n b d =
        (Inr Done,
         d\<lparr>plants := map (\<lambda>q. if id_is n (p_id q)
                               then q\<lparr>p_name := vs ! 0, species := vs ! 1, location := vs ! 2,
                                      water_interval_days := vs ! 3,
                                      repot_interval_days := vs ! 4, p_notes := vs ! 5\<rparr>
                               else q) (plants d)\<rparr>)"
  have "\<And>g. (\<And>q. g (q\<lparr>p_name := vs ! 0, species := vs ! 1, location := vs ! 2,
                          water_interval_days := vs ! 3,
                          repot_interval_days := vs ! 4, p_notes := vs ! 5\<rparr>) = g q) \<Longrightarrow>
        map (g \<circ> (\<lambda>q. if id_is n (p_id q)
                               then q\<lparr>p_name := vs ! 0, species := vs ! 1, location := vs ! 2,
                                      water_interval_days := vs ! 3,
                                      repot_interval_days := vs ! 4, p_notes := vs ! 5\<rparr>
                               else q)) (plants d) = map g (plants d)"
    by (rule map_cong) simp_all
  then show ?thesis by (simp add: eq)
qed simp_all

text \<open>
  When no text field of the input is an array or an object, a field that the input
  leaves out (or gives as \<^verbatim>\<open>null\<close>) keeps its stored value when it is one of the four
  text fields, and when it is an interval stored as a number. An interval stored as NULL
  does not keep its value, see below.
\<close>

lemma put_plant_retains:
  assumes ids: "ids_issued d" and sel: "select_plant d n uid = Some p"
    and ok: "fst (put_plant uid n b d) = Inr Done"
    and prim: "primitive (a_name b)" "primitive (a_species b)" "primitive (a_location b)"
      "primitive (a_notes b)"
  shows "\<exists>p'. select_plant (snd (put_plant uid n b d)) n uid = Some p' \<and>
     (a_name b = JUndefined \<or> a_name b = JNull \<longrightarrow> p_name p' = p_name p) \<and>
     (a_species b = JUndefined \<or> a_species b = JNull \<longrightarrow> species p' = species p) \<and>
     (a_location b = JUndefined \<or> a_location b = JNull \<longrightarrow> location p' = location p) \<and>
     (a_notes b = JUndefined \<or> a_notes b = JNull \<longrightarrow> p_notes p' = p_notes p) \<and>
     ((a_water_interval_days b = JUndefined \<or> a_water_interval_days b = JNull) \<and>
        (\<exists>x. water_interval_days p = SqlNum x) \<longrightarrow>
        water_interval_days p' = water_interval_days p) \<and>
     ((a_repot_interval_days b = JUndefined \<or> a_repot_interval_days b = JNull) \<and>
        (\<exists>x. repot_interval_days p = SqlNum x) \<longrightarrow>
        repot_interval_days p' = repot_interval_days p)"
  using put_plant_cases[of uid n b d]
proof (elim disjE exE conjE)
  fix q vs
  assume q: "select_plant d n uid = Some q"
    and pv: "run_params 7
        [nullish (a_name b) (column (p_name q)),
         nullish (a_species b) (column (species q)),
         nullish (a_location b) (column (location q)),
         JNum (Number (nullish (a_water_interval_days b) (column (water_interval_days q)))),
         JNum (Number (nullish (a_repot_interval_days b) (column (repot_interval_days q)))),
         nullish (a_notes b) (column (p_notes q)),
         JNum n] = Some vs"
    and eq: "put_plant uid n b d =
        (Inr Done,
         d\<lparr>plants := map (\<lambda>q. if id_is n (p_id q)
                               then q\<lparr>p_name := vs ! 0, species := vs ! 1, location := vs ! 2,
                                      water_interval_days := vs ! 3,
                                      repot_interval_days := vs ! 4, p_notes := vs ! 5\<rparr>
                               else q) (plants d)\<rparr>)"
  have qp: "q = p" using q sel by simp
  note b = run_params_primitive[OF primitive_nullish[OF prim(1)] primitive_nullish[OF prim(2)]
      primitive_nullish[OF prim(3)] primitive_nullish[OF prim(4)] pv, unfolded qp]
  have dist: "distinct (map p_id (plants d))" using ids by (simp add: ids_issued_def)
  have s': "select_plant (snd (put_plant uid n b d)) n uid =
      Some (p\<lparr>p_name := vs ! 0, species := vs ! 1, location := vs ! 2,
              water_interval_days := vs ! 3, repot_interval_days := vs ! 4,
              p_notes := vs ! 5\<rparr>)"
    unfolding eq snd_conv by (rule select_after_update[OF dist sel]) simp
  have "a_name b = JUndefined \<or> a_name b = JNull \<longrightarrow> vs ! 0 = p_name p"
    using b by (auto simp: nullish_def bind_column)
  moreover have "a_species b = JUndefined \<or> a_species b = JNull \<longrightarrow> vs ! 1 = species p"
    using b by (auto simp: nullish_def bind_column)
  moreover have "a_location b = JUndefined \<or> a_location b = JNull \<longrightarrow> vs ! 2 = location p"
    using b by (auto simp: nullish_def bind_column)
  moreover have "a_notes b = JUndefined \<or> a_notes b = JNull \<longrightarrow> vs ! 5 = p_notes p"
    using b by (auto simp: nullish_def bind_column)
  moreover have "(a_water_interval_days b = JUndefined \<or> a_water_interval_days b = JNull) \<and>
        (\<exists>x. water_interval_days p = SqlNum x) \<longrightarrow> vs ! 3 = water_interval_days p"
    using b by (auto simp: nullish_def)
  moreover have "(a_repot_interval_days b = JUndefined \<or> a_repot_interval_days b = JNull) \<and>
        (\<exists>x. repot_interval_days p = SqlNum x) \<longrightarrow> vs ! 4 = repot_interval_days p"
    using b by (auto simp: nullish_def)
  ultimately show ?thesis by (simp add: s')
qed (use ok in simp_all)

lemma with_moss_state:
  "run with_moss empty_db =
     \<lparr>users = [\<lparr>u_id = 1, email = ''a@x.test'', password_hash = ''$2b$11$pw123''\<rparr>,
               \<lparr>u_id = 2, email = ''b@x.test'', password_hash = ''$2b$11$pw456''\<rparr>],
      users_seq = 2,
      sessions = [\<lparr>s_id = ''aa'', s_user_id = 1, s_created_at = 1000\<rparr>,
                  \<lparr>s_id = ''bb'', s_user_id = 2, s_created_at = 3000\<rparr>],
      plants = [\<lparr>p_id = 1, p_name = SqlText ''Fern'', species = SqlNull, location = SqlNull,
                 water_interval_days = SqlNum 7, repot_interval_days = SqlNum 365,
                 p_notes = SqlNull, last_watered = None, last_repotted = None,
                 p_user_id = Some 1\<rparr>,
                \<lparr>p_id = 2, p_name = SqlText ''Moss'', species = SqlNull, location = SqlNull,
                 water_interval_days = SqlNull, repot_interval_days = SqlNum 365,
                 p_notes = SqlNull, last_watered = None, last_repotted = None,
                 p_user_id = Some 1\<rparr>],
      plants_seq = 2, waterings = [], repottings = []\<rparr>"
  by code_simp

text \<open>
  C7 at a record whose watering interval is stored as NULL, as the moss created with the
  interval \<^verbatim>\<open>abc\<close> is. An update that supplies only the notes succeeds and stores the
  interval 0: \<^verbatim>\<open>Number(undefined ?? null)\<close> is \<^verbatim>\<open>Number(null)\<close>, which is 0. The
  interval was not supplied and did not keep its stored value.
\<close>

theorem update_turns_null_interval_into_zero:
  "map water_interval_days (plants (run with_moss empty_db)) = [SqlNum 7, SqlNull] \<and>
   fst (handle (utc_env 5000 ''aa'') (Some ''aa'')
          (PutPlant ''2'' (no_attrs\<lparr>a_notes := JStr ''shade''\<rparr>)) (run with_moss empty_db))
     = Inr Done \<and>
   map water_interval_days
     (plants (snd (handle (utc_env 5000 ''aa'') (Some ''aa'')
                     (PutPlant ''2'' (no_attrs\<lparr>a_notes := JStr ''shade''\<rparr>))
                     (run with_moss empty_db))))
     = [SqlNum 7, SqlNum 0]"
proof -
  have n: "Number (JStr ''2'') = Fin 2" by code_simp
  have sess: "getSession (run with_moss empty_db) (Some ''aa'') = Some (''aa'', 1, ''a@x.test'')"
    by (simp add: with_moss_state getSession_def)
  have h: "handle (utc_env 5000 ''aa'') (Some ''aa'')
          (PutPlant ''2'' (no_attrs\<lparr>a_notes := JStr ''shade''\<rparr>)) (run with_moss empty_db) =
        put_plant 1 (Fin 2) (no_attrs\<lparr>a_notes := JStr ''shade''\<rparr>) (run with_moss empty_db)"
    by (simp only: handle.simps requireAuth_Some[OF sess] n)
  have pp: "put_plant 1 (Fin 2) (no_attrs\<lparr>a_notes := JStr ''shade''\<rparr>) (run with_moss empty_db) =
     (Inr Done, (run with_moss empty_db)\<lparr>plants :=
        [\<lparr>p_id = 1, p_name = SqlText ''Fern'', species = SqlNull, location = SqlNull,
          water_interval_days = SqlNum 7, repot_interval_days = SqlNum 365,
          p_notes = SqlNull, last_watered = None, last_repotted = None,
          p_user_id = Some 1\<rparr>,
         \<lparr>p_id = 2, p_name = SqlText ''Moss'', species = SqlNull, location = SqlNull,
          water_interval_days = SqlNum 0, repot_interval_days = SqlNum 365,
          p_notes = SqlText ''shade'', last_watered = None, last_repotted = None,
          p_user_id = Some 1\<rparr>]\<rparr>)"
    by (simp add: with_moss_state put_plant_def select_plant_def id_is_def visible_def
        run_params_def nullish_def no_attrs_def)
  have before: "map water_interval_days (plants (run with_moss empty_db)) = [SqlNum 7, SqlNull]"
    by (simp add: with_moss_state)
  show ?thesis
    unfolding h pp by (simp add: before)
qed

subsection \<open>Creating a record\<close>

lemma bind_number: "bind (JNum x) \<noteq> None"
  by simp










subsection \<open>The effective timestamp\<close>

lemma normalizeDate_absent: "\<not> truthy v \<Longrightarrow> normalizeDate e v = Inr (now e)"
  by (simp add: normalizeDate_def)

lemma normalizeDate_calendar:
  assumes "ymd_of s = Some (y, m, d)" and "1 \<le> m" "m \<le> 12" "1 \<le> d" "d \<le> 31"
  shows "normalizeDate e (JStr s) = Inr (utc_of_local e (msPerDay * days_from_civil y m d))"
proof -
  have "s \<noteq> []" using assms(1) by (auto simp: ymd_of_def split: if_splits)
  then show ?thesis using assms by (simp add: normalizeDate_def local_midnight_def)
qed

lemma ymd_match_truthy: "ymd_match v = Some a \<Longrightarrow> truthy v"
  by (cases v) (auto simp: ymd_of_def split: if_splits)

lemma normalizeDate_fallback:
  "truthy v \<Longrightarrow> ymd_match v = None \<Longrightarrow>
   normalizeDate e v = Inr (case new_Date e v of None \<Rightarrow> now e | Some t \<Rightarrow> t)"
  by (simp add: normalizeDate_def split: option.splits)

lemma normalizeDate_throws_iff:
  "(\<exists>x. normalizeDate e v = Inl x) \<longleftrightarrow>
   (\<exists>y m d. ymd_match v = Some (y, m, d) \<and> \<not> (1 \<le> m \<and> m \<le> 12 \<and> 1 \<le> d \<and> d \<le> 31))"
proof (cases "ymd_match v")
  case None
  then show ?thesis by (simp add: normalizeDate_def split: option.splits)
next
  case (Some a)
  obtain y m d where a: "a = (y, m, d)" by (cases a)
  have "truthy v" using Some by (rule ymd_match_truthy)
  then show ?thesis using Some a
    by (simp add: normalizeDate_def local_midnight_def)
qed

text \<open>
  C9 at a date of the calendar form that no calendar has. \<^verbatim>\<open>2024-13-01\<close> passes the
  test of the form, \<^verbatim>\<open>new Date('2024-13-01T00:00:00')\<close> is the invalid date, and
  \<^verbatim>\<open>toISOString()\<close> throws: the append to a record the user can reach fails with
  \<open>Internal\<close> instead of falling back to the current time. (The other parts of the
  claim hold: see \<open>normalizeDate_absent\<close>, \<open>normalizeDate_calendar\<close> and
  \<open>normalizeDate_fallback\<close>.)
\<close>

theorem invalid_calendar_date_fails_the_append:
  "normalizeDate e (JStr ''2024-13-01'') = Inl RangeError \<and>
   select_plant (run scenario empty_db) (Fin 1) 1 \<noteq> None \<and>
   handle (utc_env 7000 ''aa'') (Some ''aa'') (PostWater ''1'' (JStr ''2024-13-01''))
     (run scenario empty_db) = (Inl Internal, run scenario empty_db) \<and>
   handle (utc_env 7000 ''aa'') (Some ''aa'') (PostRepot ''1'' (JStr ''2024-13-01''))
     (run scenario empty_db) = (Inl Internal, run scenario empty_db)"
proof -
  have y: "ymd_of ''2024-13-01'' = Some (2024, 13, 1)" by code_simp
  have nd: "normalizeDate e (JStr ''2024-13-01'') = Inl RangeError" for e
    by (simp add: normalizeDate_def y local_midnight_def)
  have n: "Number (JStr ''1'') = Fin 1" by code_simp
  have sess: "getSession (run scenario empty_db) (Some ''aa'') = Some (''aa'', 1, ''a@x.test'')"
    by (simp add: scenario_state getSession_def)
  have sel: "select_plant (run scenario empty_db) (Fin 1) 1 =
     Some \<lparr>p_id = 1, p_name = SqlText ''Fern'', species = SqlNull, location = SqlNull,
           water_interval_days = SqlNum 7, repot_interval_days = SqlNum 365,
           p_notes = SqlNull, last_watered = Some 1705708800000, last_repotted = None,
           p_user_id = Some 1\<rparr>"
    by (simp add: scenario_state select_plant_def id_is_def visible_def)
  have w: "handle (utc_env 7000 ''aa'') (Some ''aa'') (PostWater ''1'' (JStr ''2024-13-01''))
     (run scenario empty_db) = (Inl Internal, run scenario empty_db)"
    by (simp only: handle.simps requireAuth_Some[OF sess] n post_water_unchanged(2)[OF sel nd])
  have r: "handle (utc_env 7000 ''aa'') (Some ''aa'') (PostRepot ''1'' (JStr ''2024-13-01''))
     (run scenario empty_db) = (Inl Internal, run scenario empty_db)"
    by (simp only: handle.simps requireAuth_Some[OF sess] n post_repot_unchanged(2)[OF sel nd])
  show ?thesis using nd sel w r by simp
qed

subsection \<open>Sessions\<close>

lemma getSession_None_iff:
  "getSession d c = None \<longleftrightarrow>
   (case c of
      None \<Rightarrow> True
    | Some sid \<Rightarrow>
        sid = [] \<or>
        \<not> (\<exists>s \<in> set (sessions d). s_id s = sid \<and> (\<exists>u \<in> set (users d). u_id u = s_user_id s)))"
proof (cases c)
  case None
  then show ?thesis by (simp add: getSession_def)
next
  case (Some sid)
  define L where "L = [(s_id s, u_id u, email u).
           s \<leftarrow> sessions d, u \<leftarrow> users d, u_id u = s_user_id s, s_id s = sid]"
  have g: "getSession d c = (if sid = [] then None
                             else case L of [] \<Rightarrow> None | row # _ \<Rightarrow> Some row)"
    unfolding L_def using Some by (simp add: getSession_def)
  have e: "L = [] \<longleftrightarrow>
        \<not> (\<exists>s \<in> set (sessions d). s_id s = sid \<and> (\<exists>u \<in> set (users d). u_id u = s_user_id s))"
    unfolding L_def by (auto simp: concat_eq_Nil_conv)
  show ?thesis
  proof (cases L)
    case Nil
    then show ?thesis using g e Some by simp
  next
    case (Cons row rest)
    then have "L \<noteq> []" by simp
    then show ?thesis using g e Some Cons by simp
  qed
qed

lemma post_plants_sessions: "sessions (snd (post_plants uid b d)) = sessions d"
  using post_plants_cases[of uid b d] by (elim disjE exE conjE) simp_all

lemma delete_plant_sessions: "sessions (snd (delete_plant uid n d)) = sessions d"
  using delete_plant_cases[of uid n d]
  by (elim disjE exE conjE) (simp_all add: delete_plants_def delete_repottings_def delete_waterings_def)

lemma post_water_sessions: "sessions (snd (post_water e uid n date d)) = sessions d"
proof (cases "select_plant d n uid")
  case None
  then show ?thesis by (simp add: post_water_unchanged)
next
  case (Some p)
  then show ?thesis
    by (cases "normalizeDate e date") (simp_all add: post_water_unchanged post_water_fields)
qed

lemma post_repot_sessions: "sessions (snd (post_repot e uid n date d)) = sessions d"
proof (cases "select_plant d n uid")
  case None
  then show ?thesis by (simp add: post_repot_unchanged)
next
  case (Some p)
  then show ?thesis
    by (cases "normalizeDate e date") (simp_all add: post_repot_unchanged post_repot_fields)
qed

lemma handle_sessions:
  assumes "\<not> session_route r"
  shows "sessions (snd (handle e c r d)) = sessions d"
proof (cases r)
  case GetMe
  then show ?thesis by (simp add: get_me_unchanged)
next
  case GetPlants
  have "sessions (snd (requireAuth d c (\<lambda>uid. get_plants uid d))) = sessions d"
    by (rule requireAuth_snd) (simp_all add: get_plants_unchanged)
  then show ?thesis using GetPlants by simp
next
  case (PostPlants b)
  have "sessions (snd (requireAuth d c (\<lambda>uid. post_plants uid b d))) = sessions d"
    by (rule requireAuth_snd) (simp_all add: post_plants_sessions)
  then show ?thesis using PostPlants by simp
next
  case (PutPlant i b)
  have "sessions (snd (requireAuth d c (\<lambda>uid. put_plant uid (Number (JStr i)) b d))) = sessions d"
    by (rule requireAuth_snd) (simp_all add: put_plant_keeps_owner_and_cache)
  then show ?thesis using PutPlant by simp
next
  case (DeletePlant i)
  have "sessions (snd (requireAuth d c (\<lambda>uid. delete_plant uid (Number (JStr i)) d))) = sessions d"
    by (rule requireAuth_snd) (simp_all add: delete_plant_sessions)
  then show ?thesis using DeletePlant by simp
next
  case (PostWater i date)
  have "sessions (snd (requireAuth d c (\<lambda>uid. post_water e uid (Number (JStr i)) date d))) = sessions d"
    by (rule requireAuth_snd) (simp_all add: post_water_sessions)
  then show ?thesis using PostWater by simp
next
  case (PostRepot i date)
  have "sessions (snd (requireAuth d c (\<lambda>uid. post_repot e uid (Number (JStr i)) date d))) = sessions d"
    by (rule requireAuth_snd) (simp_all add: post_repot_sessions)
  then show ?thesis using PostRepot by simp
next
  case (GetHistory i)
  have "sessions (snd (requireAuth d c (\<lambda>uid. get_history uid (Number (JStr i)) d))) = sessions d"
    by (rule requireAuth_snd) (simp_all add: get_history_unchanged)
  then show ?thesis using GetHistory by simp
qed (use assms in simp_all)

text \<open>
  C3, as the code has it. Resolving a session gives nothing exactly when the request
  carries no valid cookie, or an empty token, or a token that is not the id of a stored
  session of an existing user. The age of the session plays no part: neither the clock
  nor \<open>s_created_at\<close> is read, and \<^verbatim>\<open>sessionTTLHours\<close> only sets the \<^verbatim>\<open>maxAge\<close> of
  the cookie. Resolving never writes: \<^verbatim>\<open>GET /api/me\<close> returns the database as it was,
  and no route but register, login and logout changes the table of sessions, so use does
  not extend a session.
\<close>

theorem session_resolution_ignores_age:
  "(getSession d c = None \<longleftrightarrow>
      (case c of
         None \<Rightarrow> True
       | Some sid \<Rightarrow>
           sid = [] \<or>
           \<not> (\<exists>s \<in> set (sessions d). s_id s = sid \<and>
                 (\<exists>u \<in> set (users d). u_id u = s_user_id s)))) \<and>
   handle e c GetMe d =
     (case getSession d c of
        None \<Rightarrow> Inl Unauthorized
      | Some (sid, uid, em) \<Rightarrow> Inr (Me uid em), d) \<and>
   (\<not> session_route r \<longrightarrow> sessions (snd (handle e c r d)) = sessions d)"
proof (intro conjI impI)
  show "getSession d c = None \<longleftrightarrow>
      (case c of
         None \<Rightarrow> True
       | Some sid \<Rightarrow>
           sid = [] \<or>
           \<not> (\<exists>s \<in> set (sessions d). s_id s = sid \<and>
                 (\<exists>u \<in> set (users d). u_id u = s_user_id s)))"
    by (rule getSession_None_iff)
  show "handle e c GetMe d =
     (case getSession d c of
        None \<Rightarrow> Inl Unauthorized
      | Some (sid, uid, em) \<Rightarrow> Inr (Me uid em), d)"
    by (simp add: get_me_def split: option.splits)
  assume "\<not> session_route r"
  then show "sessions (snd (handle e c r d)) = sessions d"
    by (rule handle_sessions)
qed

theorem session_resolution_ignores_age_witness:
  "getSession (run two_users empty_db) (Some ''zz'') = None \<and>
   getSession (run two_users empty_db) (Some ''aa'') = Some (''aa'', 1, ''a@x.test'') \<and>
   \<not> session_route (PostWater ''1'' JUndefined) \<and>
   sessions (snd (handle (utc_env 4000 ''cc'') (Some ''aa'') (PostWater ''1'' JUndefined)
                    (run two_users empty_db)))
     = [\<lparr>s_id = ''aa'', s_user_id = 1, s_created_at = 1000\<rparr>,
        \<lparr>s_id = ''bb'', s_user_id = 2, s_created_at = 3000\<rparr>]"
proof -
  note th = session_resolution_ignores_age[of "run two_users empty_db" "Some ''zz''"
      "utc_env 4000 ''cc''" "PostWater ''1'' JUndefined"]
  have "\<not> (\<exists>s \<in> set (sessions (run two_users empty_db)). s_id s = ''zz'' \<and>
            (\<exists>u \<in> set (users (run two_users empty_db)). u_id u = s_user_id s))"
    by (simp add: two_users_state)
  then have a: "getSession (run two_users empty_db) (Some ''zz'') = None"
    using th by simp
  have b: "getSession (run two_users empty_db) (Some ''aa'') = Some (''aa'', 1, ''a@x.test'')"
    by (simp add: two_users_state getSession_def)
  have r: "\<not> session_route (PostWater ''1'' JUndefined)" by simp
  have "sessions (snd (handle (utc_env 4000 ''cc'') (Some ''aa'') (PostWater ''1'' JUndefined)
                    (run two_users empty_db))) = sessions (run two_users empty_db)"
    using session_resolution_ignores_age[of "run two_users empty_db" "Some ''aa''"
      "utc_env 4000 ''cc''" "PostWater ''1'' JUndefined"] r by blast
  then show ?thesis using a b r by (simp add: two_users_state)
qed

text \<open>
  C3 as stated fails where it lets a session expire. The session of user a was created at
  clock 1000; at a clock more than \<^verbatim>\<open>maxAge\<close> later its token still resolves.
\<close>

theorem session_outlives_ttl_counterexample:
  "map s_created_at (filter (\<lambda>s. s_id s = ''aa'') (sessions (run two_users empty_db))) = [1000] \<and>
   maxAge < now (utc_env 9999999999 ''cc'') - 1000 \<and>
   getSession (run two_users empty_db) (Some ''aa'') = Some (''aa'', 1, ''a@x.test'') \<and>
   handle (utc_env 9999999999 ''cc'') (Some ''aa'') GetMe (run two_users empty_db)
     = (Inr (Me 1 ''a@x.test''), run two_users empty_db)"
proof -
  have b: "getSession (run two_users empty_db) (Some ''aa'') = Some (''aa'', 1, ''a@x.test'')"
    by (simp add: two_users_state getSession_def)
  have c: "map s_created_at (filter (\<lambda>s. s_id s = ''aa'') (sessions (run two_users empty_db))) = [1000]"
    by (simp add: two_users_state)
  have m: "maxAge < now (utc_env 9999999999 ''cc'') - 1000"
    by (simp add: maxAge_def sessionTTLHours_def utc_env_def)
  show ?thesis using b c m by (simp add: get_me_def)
qed

subsection \<open>Verifying credentials\<close>




end
